theory Spec2Isabelle
  imports Complex_Main
begin

section \<open>JavaScript primitives used by OpeningHoursService\<close>

subsection \<open>Numbers\<close>

text \<open>
  A JavaScript number is \<open>NaN\<close>, one of the two infinities, or a finite value. A finite
  double is represented by the exact rational it stands for: results that a double would
  round to an infinity or to zero are rounded so (\<open>js_double\<close>), the rounding of the 53
  bit mantissa is not applied, and the sign of zero is not kept (no operation of the
  service tells the two zeros apart). Whole numbers below \<open>2^53\<close> and their sums,
  differences and products by 60 are exact in both.

  A string is a list of 8-bit characters, read as the UTF-16 code units 0..255.
\<close>

datatype jsnum = NaN | Fin rat | PosInf | NegInf

text \<open>
  The least magnitude that rounds to an infinity is \<open>2^1024 - 2^970\<close>; the greatest
  that rounds to zero is \<open>2^-1075\<close>. The first test of \<open>js_double\<close> answers for zero
  and for the magnitudes from 1 to \<open>2^53\<close> what the tests after it answer for them; it
  only spares the evaluation of the powers.
\<close>

definition js_double :: "rat \<Rightarrow> jsnum" where
  "js_double q =
     (if \<bar>q\<bar> \<le> 9007199254740992 \<and> (q = 0 \<or> 1 \<le> \<bar>q\<bar>) then Fin q
      else if 2 ^ 1024 - 2 ^ 970 \<le> q then PosInf
      else if q \<le> - (2 ^ 1024 - 2 ^ 970) then NegInf
      else if \<bar>q\<bar> \<le> 1 / 2 ^ 1075 then Fin 0
      else Fin q)"

definition js_neg :: "jsnum \<Rightarrow> jsnum" where
  "js_neg x = (case x of NaN \<Rightarrow> NaN | Fin q \<Rightarrow> Fin (- q) | PosInf \<Rightarrow> NegInf | NegInf \<Rightarrow> PosInf)"

definition js_add :: "jsnum \<Rightarrow> jsnum \<Rightarrow> jsnum" where
  "js_add x y =
     (case x of
        NaN \<Rightarrow> NaN
      | Fin a \<Rightarrow> (case y of Fin b \<Rightarrow> js_double (a + b) | _ \<Rightarrow> y)
      | PosInf \<Rightarrow> (case y of NaN \<Rightarrow> NaN | NegInf \<Rightarrow> NaN | _ \<Rightarrow> PosInf)
      | NegInf \<Rightarrow> (case y of NaN \<Rightarrow> NaN | PosInf \<Rightarrow> NaN | _ \<Rightarrow> NegInf))"

definition js_sub :: "jsnum \<Rightarrow> jsnum \<Rightarrow> jsnum" where
  "js_sub x y = js_add x (js_neg y)"

text \<open>\<open>x * c\<close> and \<open>x / c\<close> for a positive constant: \<open>js_scale c x\<close> and \<open>js_scale (1 / c) x\<close>.\<close>

definition js_scale :: "rat \<Rightarrow> jsnum \<Rightarrow> jsnum" where
  "js_scale c x = (case x of Fin q \<Rightarrow> js_double (c * q) | _ \<Rightarrow> x)"

definition js_abs :: "jsnum \<Rightarrow> jsnum" where
  "js_abs x = (case x of NaN \<Rightarrow> NaN | Fin q \<Rightarrow> Fin \<bar>q\<bar> | _ \<Rightarrow> PosInf)"

text \<open>Comparisons: false as soon as one side is \<open>NaN\<close>.\<close>

definition js_lt :: "jsnum \<Rightarrow> jsnum \<Rightarrow> bool" where
  "js_lt x y =
     (case x of
        NaN \<Rightarrow> False
      | Fin a \<Rightarrow> (case y of Fin b \<Rightarrow> a < b | PosInf \<Rightarrow> True | _ \<Rightarrow> False)
      | PosInf \<Rightarrow> False
      | NegInf \<Rightarrow> (case y of Fin _ \<Rightarrow> True | PosInf \<Rightarrow> True | _ \<Rightarrow> False))"

definition js_le :: "jsnum \<Rightarrow> jsnum \<Rightarrow> bool" where
  "js_le x y = (js_lt x y \<or> (x = y \<and> x \<noteq> NaN))"

definition js_gt :: "jsnum \<Rightarrow> jsnum \<Rightarrow> bool" where
  "js_gt x y = js_lt y x"

text \<open>
  Truncation towards zero, the remainder \<open>x % n\<close> for a positive constant \<open>n\<close> (it takes
  the sign of \<open>x\<close>, and is \<open>NaN\<close> for an infinite \<open>x\<close>), and \<open>ToIntegerOrInfinity\<close> as
  \<open>setHours\<close> applies it to an argument, which must be finite for the date to be valid.
\<close>

definition js_trunc :: "rat \<Rightarrow> int" where
  "js_trunc q = (if 0 \<le> q then \<lfloor>q\<rfloor> else \<lceil>q\<rceil>)"

definition js_fmod :: "jsnum \<Rightarrow> rat \<Rightarrow> jsnum" where
  "js_fmod x n = (case x of Fin q \<Rightarrow> Fin (q - n * of_int (js_trunc (q / n))) | _ \<Rightarrow> NaN)"

definition toInteger :: "jsnum \<Rightarrow> int option" where
  "toInteger x = (case x of Fin q \<Rightarrow> Some (js_trunc q) | _ \<Rightarrow> None)"

text \<open>\<open>a % b\<close> on integers.\<close>

definition js_rem :: "int \<Rightarrow> int \<Rightarrow> int" where
  "js_rem a b = sgn a * (\<bar>a\<bar> mod \<bar>b\<bar>)"

subsection \<open>\<open>Number(s)\<close> on a string\<close>

text \<open>
  \<open>StringToNumber\<close> of ECMAScript: white space and line terminators are trimmed at both
  ends; the empty string is 0; what remains must be a radix literal \<open>0x..\<close>, \<open>0o..\<close>,
  \<open>0b..\<close> (either case of the letter, no sign) or a decimal literal, which is an
  optional sign followed by \<open>Infinity\<close> or by digits with an optional fraction and an
  optional exponent (\<open>12\<close>, \<open>12.\<close>, \<open>12.5\<close>, \<open>.5\<close>, \<open>1e3\<close>, \<open>1.5E-3\<close>). Anything else
  is \<open>NaN\<close>.
\<close>

definition isWhiteSpace :: "char \<Rightarrow> bool" where
  "isWhiteSpace c = ((of_char c :: nat) \<in> {9, 10, 11, 12, 13, 32, 160})"

definition trim :: "string \<Rightarrow> string" where
  "trim s = rev (dropWhile isWhiteSpace (rev (dropWhile isWhiteSpace s)))"

definition isDigit :: "char \<Rightarrow> bool" where
  "isDigit c = (48 \<le> (of_char c :: nat) \<and> (of_char c :: nat) \<le> 57)"

definition isHexLetter :: "char \<Rightarrow> bool" where
  "isHexLetter c =
     ((97 \<le> (of_char c :: nat) \<and> (of_char c :: nat) \<le> 102)
      \<or> (65 \<le> (of_char c :: nat) \<and> (of_char c :: nat) \<le> 70))"

definition digitVal :: "char \<Rightarrow> nat" where
  "digitVal c =
     (if isDigit c then of_char c - 48
      else if 97 \<le> (of_char c :: nat) then of_char c - 87
      else of_char c - 55)"

definition isRadixDigit :: "nat \<Rightarrow> char \<Rightarrow> bool" where
  "isRadixDigit base c = ((isDigit c \<or> isHexLetter c) \<and> digitVal c < base)"

definition radixValue :: "nat \<Rightarrow> string \<Rightarrow> nat" where
  "radixValue base s = foldl (\<lambda>a c. base * a + digitVal c) 0 s"

definition digitsValue :: "string \<Rightarrow> int option" where
  "digitsValue s = (if s \<noteq> [] \<and> list_all isDigit s then Some (int (radixValue 10 s)) else None)"

text \<open>The exponent that follows the digits of a decimal literal; none is exponent 0.\<close>

definition exponentPart :: "string \<Rightarrow> int option" where
  "exponentPart r =
     (case r of
        [] \<Rightarrow> Some 0
      | c # t \<Rightarrow>
          if c = CHR ''e'' \<or> c = CHR ''E''
          then (case t of
                  [] \<Rightarrow> None
                | d # u \<Rightarrow>
                    if d = CHR ''+'' then digitsValue u
                    else if d = CHR ''-'' then map_option uminus (digitsValue u)
                    else digitsValue t)
          else None)"

definition power10 :: "int \<Rightarrow> rat" where
  "power10 e = (if 0 \<le> e then 10 ^ nat e else 1 / 10 ^ nat (- e))"

definition unsignedDecimal :: "string \<Rightarrow> jsnum" where
  "unsignedDecimal s =
     (if s = ''Infinity'' then PosInf
      else
        (let intPart = takeWhile isDigit s;
             r = dropWhile isDigit s;
             hasDot = (r \<noteq> [] \<and> hd r = CHR ''.'');
             fracPart = (if hasDot then takeWhile isDigit (tl r) else []);
             r' = (if hasDot then dropWhile isDigit (tl r) else r)
         in if intPart = [] \<and> fracPart = [] then NaN
            else (case exponentPart r' of
                    None \<Rightarrow> NaN
                  | Some e \<Rightarrow>
                      js_double ((of_nat (radixValue 10 intPart)
                                  + of_nat (radixValue 10 fracPart) / 10 ^ length fracPart)
                                 * power10 e))))"

definition decimalLiteral :: "string \<Rightarrow> jsnum" where
  "decimalLiteral s =
     (case s of
        [] \<Rightarrow> NaN
      | c # t \<Rightarrow>
          if c = CHR ''+'' then unsignedDecimal t
          else if c = CHR ''-'' then js_neg (unsignedDecimal t)
          else unsignedDecimal s)"

definition radixLiteral :: "string \<Rightarrow> jsnum option" where
  "radixLiteral s =
     (case s of
        a # b # rest \<Rightarrow>
          if a = CHR ''0'' \<and> rest \<noteq> []
          then (if (b = CHR ''x'' \<or> b = CHR ''X'') \<and> list_all (isRadixDigit 16) rest
                then Some (js_double (of_nat (radixValue 16 rest)))
                else if (b = CHR ''o'' \<or> b = CHR ''O'') \<and> list_all (isRadixDigit 8) rest
                then Some (js_double (of_nat (radixValue 8 rest)))
                else if (b = CHR ''b'' \<or> b = CHR ''B'') \<and> list_all (isRadixDigit 2) rest
                then Some (js_double (of_nat (radixValue 2 rest)))
                else None)
          else None
      | _ \<Rightarrow> None)"

definition js_Number :: "string \<Rightarrow> jsnum" where
  "js_Number s =
     (let t = trim s
      in if t = [] then Fin 0
         else (case radixLiteral t of Some v \<Rightarrow> v | None \<Rightarrow> decimalLiteral t))"

text \<open>\<open>s.split(c)\<close> for a one-character separator: the fields between the separators.\<close>

fun js_split :: "char \<Rightarrow> string \<Rightarrow> string list" where
  "js_split c [] = [[]]"
| "js_split c (x # xs) =
     (if x = c then [] # js_split c xs
      else (case js_split c xs of
              w # ws \<Rightarrow> (x # w) # ws
            | [] \<Rightarrow> [[x]]))"

text \<open>Two-digit, zero-padded decimal, as the pattern \<open>HH:mm\<close> of \<open>format\<close> prints it.\<close>

definition digitChar :: "nat \<Rightarrow> char" where
  "digitChar d = ''0123456789'' ! d"

definition pad2 :: "nat \<Rightarrow> string" where
  "pad2 n = [digitChar (n div 10 mod 10), digitChar (n mod 10)]"

definition formatHHmm :: "nat \<Rightarrow> string" where
  "formatHHmm t = pad2 (t div 60) @ '':'' @ pad2 (t mod 60)"

section \<open>Data model\<close>

text \<open>
  \<open>OpeningHoursSpecification\<close>. The declared type of \<open>dayOfWeek\<close> is a string, but
  \<open>normalizeAndSplitDays\<close> also accepts an array of day names there; \<open>rawSpec\<close> is the
  record as callers supply it, \<open>spec\<close> the record after that step.
\<close>

datatype dayField = Single string | Several "string list"

record rawSpec =
  rawType :: string
  rawDayOfWeek :: dayField
  rawOpens :: string
  rawCloses :: string

record spec =
  atType :: string
  dayOfWeek :: string
  opens :: string
  closes :: string

record openRange =
  rangeOpen :: string
  rangeCloses :: string

record openRangePerDay =
  perDayType :: string
  perDayOfWeek :: string
  openRanges :: "openRange list"

text \<open>
  The errors the service throws, one constructor per message:
  \<open>Invalid time range on D: opens at O but closes at C\<close>,
  \<open>Invalid opening time on D: opens at 24:00\<close>,
  \<open>Invalid closing time on D: closes at C\<close>,
  \<open>Invalid time ranges: D [O-C] overlaps with D [O'-C']\<close>,
  \<open>Invalid dayOfWeek: "D"\<close>, and the \<open>RangeError: Invalid time value\<close> that
  \<open>format\<close> of date-fns-tz raises on an invalid date.
\<close>

datatype error =
    InvalidTimeRange string string string
  | InvalidOpeningTime string
  | InvalidClosingTime string string
  | OverlapError string string string string string
  | InvalidWeekday string
  | InvalidTimeValue

text \<open>
  The compiled \<open>opening_hours\<close> object is external; it is identified here with the
  schedule string it was constructed from.
\<close>

datatype engine = Engine string

record service =
  openingHours :: "spec list"
  userTimezone :: string
  openingHoursInstance :: engine

text \<open>
  What the service reads from its surroundings. \<open>Date\<close> and the timezone collaborator
  (\<open>fromZonedTime\<close>, \<open>toZonedTime\<close> and \<open>format\<close> of date-fns-tz) are external. A
  \<open>Date\<close> is represented by what its local getters show: the wall clock of the process
  zone in whole minutes since 1970-01-01 00:00, so that \<open>w div 1440\<close> is the calendar
  date and \<open>w mod 1440\<close> the time of day; \<open>None\<close> is an invalid date.

  \<^item> \<open>referenceDate i\<close> is the local calendar date of the instant that \<open>new Date()\<close>
    followed by \<open>setUTCDate(getUTCDate() - getUTCDay() + i)\<close> leaves, in days since
    1970-01-01.
  \<^item> \<open>setHoursClock w\<close> is the wall clock that a date shows after \<open>setHours\<close> has asked
    for the wall clock \<open>w\<close>. In a zone whose clocks do not change it is \<open>w\<close>; a wall
    clock that a clock change skips is moved forward by the length of the gap, and a
    date out of the range of \<open>Date\<close> is invalid.
  \<^item> \<open>zonedClock from to w\<close> is the wall clock that
    \<open>toZonedTime(fromZonedTime(d, from), to)\<close> shows for a date \<open>d\<close> that shows \<open>w\<close>;
    it is invalid for a zone name that the collaborator does not recognise.
\<close>

record env =
  referenceDate :: "int \<Rightarrow> int"
  setHoursClock :: "int \<Rightarrow> int option"
  zonedClock :: "string \<Rightarrow> string \<Rightarrow> int \<Rightarrow> int option"

section \<open>Time strings\<close>

text \<open>
  \<open>const [hours, minutes] = time.split(':').map(Number)\<close>. A missing second field leaves
  \<open>minutes\<close> undefined, which behaves like \<open>NaN\<close> at every place the service uses it:
  arithmetic gives \<open>NaN\<close>, every comparison is false, \<open>setHours\<close> gives an invalid date.
\<close>

definition hoursOf :: "string \<Rightarrow> jsnum" where
  "hoursOf time = (case js_split CHR '':'' time of p # _ \<Rightarrow> js_Number p | [] \<Rightarrow> NaN)"

definition minutesOf :: "string \<Rightarrow> jsnum" where
  "minutesOf time = (case js_split CHR '':'' time of _ # q # _ \<Rightarrow> js_Number q | _ \<Rightarrow> NaN)"

definition convertTimeToMinutes :: "string \<Rightarrow> jsnum" where
  "convertTimeToMinutes time =
     (let hours = hoursOf time; minutes = minutesOf time
      in if hours = Fin 24 \<and> minutes = Fin 0 then Fin 1440
         else js_add (js_scale 60 hours) minutes)"

definition areTimesAdjacent :: "string \<Rightarrow> string \<Rightarrow> bool" where
  "areTimesAdjacent time1 time2 =
     js_le (js_abs (js_sub (convertTimeToMinutes time1) (convertTimeToMinutes time2))) (Fin 1)"

definition timeIsBefore :: "string \<Rightarrow> string \<Rightarrow> bool" where
  "timeIsBefore time1 time2 = js_lt (convertTimeToMinutes time1) (convertTimeToMinutes time2)"

section \<open>Weekdays\<close>

definition days :: "string list" where
  "days = [''Monday'', ''Tuesday'', ''Wednesday'', ''Thursday'', ''Friday'', ''Saturday'',
           ''Sunday'']"

definition convertDayStringToNumber :: "string \<Rightarrow> error + int" where
  "convertDayStringToNumber day =
     (if day = ''Monday'' then Inr 1
      else if day = ''Tuesday'' then Inr 2
      else if day = ''Wednesday'' then Inr 3
      else if day = ''Thursday'' then Inr 4
      else if day = ''Friday'' then Inr 5
      else if day = ''Saturday'' then Inr 6
      else if day = ''Sunday'' then Inr 7
      else Inl (InvalidWeekday day))"

definition convertDayOfWeekToShortForm :: "string \<Rightarrow> string" where
  "convertDayOfWeekToShortForm day =
     (if day = ''Monday'' then ''Mo''
      else if day = ''Tuesday'' then ''Tu''
      else if day = ''Wednesday'' then ''We''
      else if day = ''Thursday'' then ''Th''
      else if day = ''Friday'' then ''Fr''
      else if day = ''Saturday'' then ''Sa''
      else if day = ''Sunday'' then ''Su''
      else ''undefined'')"

text \<open>\<open>days.indexOf(d)\<close>: the position of \<open>d\<close>, or -1.\<close>

fun indexOf :: "string list \<Rightarrow> string \<Rightarrow> int" where
  "indexOf [] d = -1"
| "indexOf (x # xs) d = (if x = d then 0 else (let r = indexOf xs d in if r < 0 then -1 else r + 1))"

definition adjustDayOfWeek :: "string \<Rightarrow> int \<Rightarrow> string" where
  "adjustDayOfWeek day dayChange =
     (let currentIndex = indexOf days day;
          newIndex = js_rem (currentIndex + dayChange) 7;
          newIndex' = (if newIndex < 0 then newIndex + 7 else newIndex)
      in days ! nat newIndex')"

definition startsWith :: "string \<Rightarrow> string \<Rightarrow> bool" where
  "startsWith s p = (take (length p) s = p)"

definition normalizeDayOfWeek :: "string \<Rightarrow> string" where
  "normalizeDayOfWeek day =
     (if startsWith day ''https://schema.org/''
      then (let l = last (js_split CHR ''/'' day) in if l = [] then day else l)
      else day)"

definition normalizeAndSplitDays :: "rawSpec list \<Rightarrow> spec list" where
  "normalizeAndSplitDays hours =
     concat (map (\<lambda>r.
        map (\<lambda>day. \<lparr>atType = rawType r, dayOfWeek = normalizeDayOfWeek day,
                     opens = rawOpens r, closes = rawCloses r\<rparr>)
            (case rawDayOfWeek r of Single d \<Rightarrow> [d] | Several ds \<Rightarrow> ds)) hours)"

section \<open>The calendar behind \<open>getDate\<close>\<close>

text \<open>
  The day of the month (1..31) of the proleptic Gregorian date that lies \<open>z\<close> days after
  1970-01-01, by the usual era / day-of-era / day-of-year computation (years start in
  March, so that the leap day is the last day of a year).
\<close>

definition dayOfMonth :: "int \<Rightarrow> int" where
  "dayOfMonth z =
     (let z' = z + 719468;
          era = z' div 146097;
          doe = z' - era * 146097;
          yoe = (doe - doe div 1460 + doe div 36524 - doe div 146096) div 365;
          doy = doe - (365 * yoe + yoe div 4 - yoe div 100);
          mp = (5 * doy + 2) div 153
      in doy - (153 * mp + 2) div 5 + 1)"

section \<open>Conversion between timezones\<close>

text \<open>
  \<open>convertTimeWithDayChange\<close>. The weekday is checked first
  (\<open>convertDayStringToNumber\<close> throws). \<open>setHours(hours % 24, minutes, 0, 0)\<close> asks for
  the hour and minute, truncated to integers, on the reference date of the weekday; a
  \<open>NaN\<close> or infinite argument gives an invalid date. \<open>fromZonedTime\<close> and
  \<open>toZonedTime\<close> pass an invalid date on, and \<open>format\<close> throws
  \<open>RangeError: Invalid time value\<close> on it. \<open>getDate\<close> is the day of the month of the
  wall clock.
\<close>

definition convertTimeWithDayChange ::
  "env \<Rightarrow> string \<Rightarrow> string \<Rightarrow> string \<Rightarrow> string \<Rightarrow> error + (string \<times> int)" where
  "convertTimeWithDayChange env time day fromTimezone toTimezone =
     (case convertDayStringToNumber day of
        Inl e \<Rightarrow> Inl e
      | Inr dayNumber \<Rightarrow>
          (let dayIndex = dayNumber - 1
           in case (toInteger (js_fmod (hoursOf time) 24), toInteger (minutesOf time)) of
                (Some hour, Some minute) \<Rightarrow>
                  (case setHoursClock env (referenceDate env dayIndex * 1440 + hour * 60 + minute) of
                     None \<Rightarrow> Inl InvalidTimeValue
                   | Some dateInFromZone \<Rightarrow>
                       (case zonedClock env fromTimezone toTimezone dateInFromZone of
                          None \<Rightarrow> Inl InvalidTimeValue
                        | Some dateInToZone \<Rightarrow>
                            (let convertedTime = formatHHmm (nat (dateInToZone mod 1440));
                                 dayDifference =
                                   dayOfMonth (dateInToZone div 1440)
                                   - dayOfMonth (dateInFromZone div 1440)
                             in Inr (convertedTime,
                                     if time = ''24:00'' then dayDifference + 1
                                     else dayDifference))))
              | _ \<Rightarrow> Inl InvalidTimeValue))"

definition convertAndSplitEntry ::
  "env \<Rightarrow> spec \<Rightarrow> string \<Rightarrow> string \<Rightarrow> error + spec list" where
  "convertAndSplitEntry env sp fromTimezone toTimezone =
     (case convertTimeWithDayChange env (opens sp) (dayOfWeek sp) fromTimezone toTimezone of
        Inl e \<Rightarrow> Inl e
      | Inr opensConversion \<Rightarrow>
     (case convertTimeWithDayChange env (closes sp) (dayOfWeek sp) fromTimezone toTimezone of
        Inl e \<Rightarrow> Inl e
      | Inr closesConversion \<Rightarrow>
          (let opensDayOfWeek = adjustDayOfWeek (dayOfWeek sp) (snd opensConversion);
               closesDayOfWeek = adjustDayOfWeek (dayOfWeek sp) (snd closesConversion)
           in if opensDayOfWeek = closesDayOfWeek
              then Inr [\<lparr>atType = ''OpeningHoursSpecification'', dayOfWeek = opensDayOfWeek,
                         opens = fst opensConversion, closes = fst closesConversion\<rparr>]
              else
                (let firstEntry =
                       \<lparr>atType = ''OpeningHoursSpecification'', dayOfWeek = opensDayOfWeek,
                        opens = fst opensConversion, closes = ''24:00''\<rparr>;
                     secondEntry =
                       \<lparr>atType = ''OpeningHoursSpecification'', dayOfWeek = closesDayOfWeek,
                        opens = ''00:00'', closes = fst closesConversion\<rparr>
                 in if fst opensConversion \<noteq> ''24:00'' \<and> fst closesConversion \<noteq> ''00:00''
                    then Inr [firstEntry, secondEntry]
                    else if fst opensConversion = ''24:00'' \<and> fst closesConversion = ''00:00''
                    then Inr []
                    else if fst opensConversion = ''24:00''
                    then Inr [secondEntry]
                    else Inr [firstEntry]))))"

text \<open>\<open>xs.flatMap(f)\<close> with a callback that may throw: the first exception ends the call.\<close>

fun flatMapE :: "('a \<Rightarrow> error + 'b list) \<Rightarrow> 'a list \<Rightarrow> error + 'b list" where
  "flatMapE f [] = Inr []"
| "flatMapE f (x # xs) =
     (case f x of
        Inl e \<Rightarrow> Inl e
      | Inr ys \<Rightarrow> (case flatMapE f xs of Inl e \<Rightarrow> Inl e | Inr zs \<Rightarrow> Inr (ys @ zs)))"

definition preprocessOpeningHours :: "rawSpec list \<Rightarrow> error + spec list" where
  "preprocessOpeningHours hours =
     flatMapE (\<lambda>sp.
        if timeIsBefore (closes sp) (opens sp) \<or> closes sp = opens sp
        then Inl (InvalidTimeRange (dayOfWeek sp) (opens sp) (closes sp))
        else Inr [sp]) (normalizeAndSplitDays hours)"

section \<open>Sorting, merging and the integrity check\<close>

definition compareOpeningHours :: "spec \<Rightarrow> spec \<Rightarrow> error + jsnum" where
  "compareOpeningHours a b =
     (case convertDayStringToNumber (dayOfWeek a) of
        Inl e \<Rightarrow> Inl e
      | Inr dayA \<Rightarrow>
     (case convertDayStringToNumber (dayOfWeek b) of
        Inl e \<Rightarrow> Inl e
      | Inr dayB \<Rightarrow>
          if dayA \<noteq> dayB then Inr (Fin (of_int (dayA - dayB)))
          else Inr (js_sub (convertTimeToMinutes (opens a)) (convertTimeToMinutes (opens b)))))"

text \<open>
  \<open>hours.sort(compare)\<close>. \<open>Array.prototype.sort\<close> is a stable comparison sort that treats
  a \<open>NaN\<close> result of the comparator as 0; on an array of two or more elements every
  element is compared at least once, so a weekday that \<open>compareOpeningHours\<close> rejects
  aborts the sort (with several such weekdays, which one is reported depends on the
  engine; the model reports the first of the array). For a comparator that is a total
  preorder the result is the stable sorted permutation, computed here by insertion; for
  \<open>NaN\<close> results the order is implementation-defined in JavaScript.
\<close>

definition mayPrecede :: "spec \<Rightarrow> spec \<Rightarrow> bool" where
  "mayPrecede a b =
     (case compareOpeningHours a b of Inr v \<Rightarrow> \<not> js_gt v (Fin 0) | Inl _ \<Rightarrow> True)"

fun insertHours :: "spec \<Rightarrow> spec list \<Rightarrow> spec list" where
  "insertHours x [] = [x]"
| "insertHours x (y # ys) = (if mayPrecede x y then x # y # ys else y # insertHours x ys)"

definition sortHours :: "spec list \<Rightarrow> error + spec list" where
  "sortHours hours =
     (if length hours < 2 then Inr hours
      else (case filter (\<lambda>h. isl (convertDayStringToNumber (dayOfWeek h))) hours of
              h # _ \<Rightarrow> Inl (InvalidWeekday (dayOfWeek h))
            | [] \<Rightarrow> Inr (foldr insertHours hours [])))"

text \<open>
  \<open>combineAdjacentRanges\<close>. \<open>combineFrom currentRange rest\<close> is the loop at the moment
  \<open>currentRange\<close> is the copy of the range being extended and \<open>rest\<close> are the ranges
  after it: the inner \<open>while\<close> absorbs the next range while it is on the same day and
  adjacent, then \<open>currentRange\<close> is pushed and the outer \<open>for\<close> goes on with the next.
\<close>

fun combineFrom :: "spec \<Rightarrow> spec list \<Rightarrow> spec list" where
  "combineFrom currentRange [] = [currentRange]"
| "combineFrom currentRange (nextRange # rest) =
     (if dayOfWeek currentRange = dayOfWeek nextRange
         \<and> areTimesAdjacent (closes currentRange) (opens nextRange)
      then combineFrom
             (currentRange\<lparr>closes :=
                (if timeIsBefore (closes nextRange) (closes currentRange)
                 then closes currentRange else closes nextRange)\<rparr>) rest
      else currentRange # combineFrom nextRange rest)"

definition combineAdjacentRanges :: "spec list \<Rightarrow> spec list" where
  "combineAdjacentRanges hours = (case hours of [] \<Rightarrow> [] | h # rest \<Rightarrow> combineFrom h rest)"

fun checkIntegrity :: "spec list \<Rightarrow> error + unit" where
  "checkIntegrity [] = Inr ()"
| "checkIntegrity (current # rest) =
     (let opensTime = convertTimeToMinutes (opens current);
          closesTime = convertTimeToMinutes (closes current)
      in if opens current = ''24:00''
         then Inl (InvalidOpeningTime (dayOfWeek current))
         else if js_le closesTime opensTime
         then Inl (InvalidTimeRange (dayOfWeek current) (opens current) (closes current))
         else if js_gt closesTime (Fin 1440)
         then Inl (InvalidClosingTime (dayOfWeek current) (closes current))
         else (case rest of
                 [] \<Rightarrow> checkIntegrity rest
               | next # _ \<Rightarrow>
                   if dayOfWeek current = dayOfWeek next
                      \<and> js_gt closesTime (convertTimeToMinutes (opens next))
                   then Inl (OverlapError (dayOfWeek current) (opens current) (closes current)
                               (opens next) (closes next))
                   else checkIntegrity rest))"

definition combineAndCheckIntegrity :: "spec list \<Rightarrow> error + spec list" where
  "combineAndCheckIntegrity hours =
     (case sortHours hours of
        Inl e \<Rightarrow> Inl e
      | Inr sortedHours \<Rightarrow>
          (let combinedHours = combineAdjacentRanges sortedHours
           in case checkIntegrity combinedHours of
                Inl e \<Rightarrow> Inl e
              | Inr _ \<Rightarrow> Inr combinedHours))"

section \<open>The service\<close>

text \<open>
  Every public method takes the service object and returns its result together with the
  object as the method leaves it. A thrown error is \<open>Inl\<close>; the object returned with it
  carries every assignment made before the \<open>throw\<close>.
\<close>

fun intercalate :: "string \<Rightarrow> string list \<Rightarrow> string" where
  "intercalate sep [] = []"
| "intercalate sep [x] = x"
| "intercalate sep (x # y # ys) = x @ sep @ intercalate sep (y # ys)"

text \<open>
  The object that \<open>getOpenRangePerDay\<close> groups into, as a list of keys with their ranges
  in insertion order, which is the order \<open>Object.keys\<close> returns for the weekday names.
\<close>

fun pushRange ::
  "(string \<times> openRange list) list \<Rightarrow> string \<Rightarrow> openRange \<Rightarrow> (string \<times> openRange list) list" where
  "pushRange [] key r = [(key, [r])]"
| "pushRange ((k, rs) # table) key r =
     (if k = key then (k, rs @ [r]) # table else (k, rs) # pushRange table key r)"

definition groupByDay :: "spec list \<Rightarrow> (string \<times> openRange list) list" where
  "groupByDay hours =
     foldl (\<lambda>table sp. pushRange table (dayOfWeek sp)
                          \<lparr>rangeOpen = opens sp, rangeCloses = closes sp\<rparr>)
           (map (\<lambda>d. (d, [])) days) hours"

definition getOpenRangePerDay ::
  "env \<Rightarrow> string option \<Rightarrow> service \<Rightarrow> (error + openRangePerDay list) \<times> service" where
  "getOpenRangePerDay env tz s =
     (let timezone = (case tz of None \<Rightarrow> userTimezone s | Some z \<Rightarrow> z);
          converted =
            (if timezone \<noteq> userTimezone s
             then (case flatMapE (\<lambda>sp. convertAndSplitEntry env sp (userTimezone s) timezone)
                          (openingHours s) of
                     Inl e \<Rightarrow> Inl e
                   | Inr convertedHours \<Rightarrow> combineAndCheckIntegrity convertedHours)
             else Inr (openingHours s))
      in case converted of
           Inl e \<Rightarrow> (Inl e, s)
         | Inr hours \<Rightarrow>
             (Inr (map (\<lambda>(day, ranges).
                      \<lparr>perDayType = ''OpenRangePerDay'', perDayOfWeek = day,
                       openRanges = ranges\<rparr>) (groupByDay hours)), s))"

definition getOpenRangeForDay ::
  "env \<Rightarrow> string \<Rightarrow> string option \<Rightarrow> service \<Rightarrow> (error + openRangePerDay) \<times> service" where
  "getOpenRangeForDay env day tz s =
     (case getOpenRangePerDay env tz s of
        (Inl e, s') \<Rightarrow> (Inl e, s')
      | (Inr perDay, s') \<Rightarrow>
          (case find (\<lambda>r. perDayOfWeek r = day) perDay of
             Some r \<Rightarrow> (Inr r, s')
           | None \<Rightarrow> (Inr \<lparr>perDayType = ''OpenRangePerDay'', perDayOfWeek = day,
                           openRanges = []\<rparr>, s')))"

definition hoursString :: "openRangePerDay list \<Rightarrow> string" where
  "hoursString perDay =
     intercalate ''; ''
       (map (\<lambda>r. convertDayOfWeekToShortForm (perDayOfWeek r) @ '' '' @
                  (if openRanges r = [] then ''off''
                   else intercalate '',''
                          (map (\<lambda>range. rangeOpen range @ ''-'' @ rangeCloses range)
                               (openRanges r)))) perDay)"

definition generateOpeningHoursInstance :: "env \<Rightarrow> service \<Rightarrow> (error + unit) \<times> service" where
  "generateOpeningHoursInstance env s =
     (case getOpenRangePerDay env None s of
        (Inl e, s') \<Rightarrow> (Inl e, s')
      | (Inr perDay, s') \<Rightarrow>
          (let str = hoursString perDay
           in if str = []
              then (Inr (), s'\<lparr>openingHoursInstance := Engine ''Mo-Su closed''\<rparr>)
              else (Inr (), s'\<lparr>openingHoursInstance := Engine str\<rparr>)))"

definition setOpeningHours ::
  "env \<Rightarrow> rawSpec list \<Rightarrow> string option \<Rightarrow> service \<Rightarrow> (error + unit) \<times> service" where
  "setOpeningHours env hours tz s =
     (let timezone = (case tz of None \<Rightarrow> userTimezone s | Some z \<Rightarrow> z)
      in case preprocessOpeningHours hours of
           Inl e \<Rightarrow> (Inl e, s)
         | Inr preprocessedHours \<Rightarrow>
        (case flatMapE (\<lambda>sp. convertAndSplitEntry env sp timezone (userTimezone s))
                       preprocessedHours of
           Inl e \<Rightarrow> (Inl e, s)
         | Inr convertedHours \<Rightarrow>
        (case combineAndCheckIntegrity convertedHours of
           Inl e \<Rightarrow> (Inl e, s)
         | Inr combinedHours \<Rightarrow>
             generateOpeningHoursInstance env (s\<lparr>openingHours := combinedHours\<rparr>))))"

definition addOpeningHoursBatch ::
  "env \<Rightarrow> rawSpec list \<Rightarrow> string option \<Rightarrow> service \<Rightarrow> (error + unit) \<times> service" where
  "addOpeningHoursBatch env hours tz s =
     (let timezone = (case tz of None \<Rightarrow> userTimezone s | Some z \<Rightarrow> z)
      in case preprocessOpeningHours hours of
           Inl e \<Rightarrow> (Inl e, s)
         | Inr preprocessedEntry \<Rightarrow>
        (case flatMapE (\<lambda>sp. convertAndSplitEntry env sp timezone (userTimezone s))
                       preprocessedEntry of
           Inl e \<Rightarrow> (Inl e, s)
         | Inr convertedEntries \<Rightarrow>
        (case combineAndCheckIntegrity (openingHours s @ convertedEntries) of
           Inl e \<Rightarrow> (Inl e, s)
         | Inr combinedHours \<Rightarrow>
             generateOpeningHoursInstance env (s\<lparr>openingHours := combinedHours\<rparr>))))"

definition addOpeningHour ::
  "env \<Rightarrow> string \<Rightarrow> string \<Rightarrow> string \<Rightarrow> string option \<Rightarrow> service
     \<Rightarrow> (error + unit) \<times> service" where
  "addOpeningHour env day opensAt closesAt tz s =
     addOpeningHoursBatch env
       [\<lparr>rawType = ''OpeningHoursSpecification'', rawDayOfWeek = Single day,
         rawOpens = opensAt, rawCloses = closesAt\<rparr>]
       (Some (case tz of None \<Rightarrow> userTimezone s | Some z \<Rightarrow> z)) s"

definition toRaw :: "spec \<Rightarrow> rawSpec" where
  "toRaw sp = \<lparr>rawType = atType sp, rawDayOfWeek = Single (dayOfWeek sp),
               rawOpens = opens sp, rawCloses = closes sp\<rparr>"

definition removeOpeningHoursForDay ::
  "env \<Rightarrow> string \<Rightarrow> string option \<Rightarrow> service \<Rightarrow> (error + unit) \<times> service" where
  "removeOpeningHoursForDay env day tz s =
     (let timezone = (case tz of None \<Rightarrow> userTimezone s | Some z \<Rightarrow> z);
          converted =
            (if timezone \<noteq> userTimezone s
             then (case flatMapE (\<lambda>sp. convertAndSplitEntry env sp (userTimezone s) timezone)
                          (openingHours s) of
                     Inl e \<Rightarrow> Inl e
                   | Inr convertedHours \<Rightarrow> combineAndCheckIntegrity convertedHours)
             else Inr (openingHours s))
      in case converted of
           Inl e \<Rightarrow> (Inl e, s)
         | Inr hours \<Rightarrow>
             (let updatedHours = filter (\<lambda>sp. dayOfWeek sp \<noteq> day) hours
              in case combineAndCheckIntegrity updatedHours of
                   Inl e \<Rightarrow> (Inl e, s)
                 | Inr combinedHours \<Rightarrow>
                     setOpeningHours env (map toRaw combinedHours) (Some timezone) s))"

definition exportOpeningHours ::
  "env \<Rightarrow> string option \<Rightarrow> service \<Rightarrow> (error + spec list) \<times> service" where
  "exportOpeningHours env tz s =
     (let timezone = (case tz of None \<Rightarrow> userTimezone s | Some z \<Rightarrow> z)
      in case flatMapE (\<lambda>sp. convertAndSplitEntry env sp (userTimezone s) timezone)
                (openingHours s) of
           Inl e \<Rightarrow> (Inl e, s)
         | Inr convertedHours \<Rightarrow> (combineAndCheckIntegrity convertedHours, s))"

text \<open>
  \<open>validateOpeningHours\<close>: the argument defaults to the stored hours; whatever the
  \<open>try\<close> block throws is caught and answered with \<open>false\<close>.
\<close>

definition validateOpeningHours :: "rawSpec list option \<Rightarrow> service \<Rightarrow> bool \<times> service" where
  "validateOpeningHours hours s =
     (let given = (case hours of None \<Rightarrow> map toRaw (openingHours s) | Some hs \<Rightarrow> hs)
      in case preprocessOpeningHours given of
           Inl e \<Rightarrow> (False, s)
         | Inr preprocessed \<Rightarrow>
             (case checkIntegrity preprocessed of
                Inl e \<Rightarrow> (False, s)
              | Inr _ \<Rightarrow> (True, s)))"

definition getTotalOpenHours :: "service \<Rightarrow> jsnum \<times> service" where
  "getTotalOpenHours s =
     (foldl (\<lambda>total sp.
         (let opensMinutes = convertTimeToMinutes (opens sp);
              closesMinutes = convertTimeToMinutes (closes sp)
          in js_add total (js_scale (1 / 60) (js_sub closesMinutes opensMinutes))))
        (Fin 0) (openingHours s), s)"

definition getDaysWithoutOpeningHours :: "service \<Rightarrow> string list \<times> service" where
  "getDaysWithoutOpeningHours s =
     (filter (\<lambda>day. day \<notin> set (map dayOfWeek (openingHours s))) days, s)"

text \<open>
  The constructor: \<open>localZone\<close> is the zone that \<open>Intl.DateTimeFormat\<close> resolves; an
  exception of \<open>setOpeningHours\<close> leaves no object.
\<close>

definition emptyService :: "string \<Rightarrow> service" where
  "emptyService localZone =
     \<lparr>openingHours = [], userTimezone = localZone,
      openingHoursInstance = Engine ''Mo-Su closed''\<rparr>"

definition newService ::
  "env \<Rightarrow> string \<Rightarrow> rawSpec list option \<Rightarrow> string option \<Rightarrow> error + service" where
  "newService env localZone initialHours tz =
     (let s = emptyService localZone;
          inputTimezone =
            (case tz of None \<Rightarrow> localZone | Some z \<Rightarrow> if z = [] then localZone else z)
      in case initialHours of
           None \<Rightarrow> Inr s
         | Some hours \<Rightarrow>
             if hours = [] then Inr s
             else (case setOpeningHours env hours (Some inputTimezone) s of
                     (Inl e, _) \<Rightarrow> Inl e
                   | (Inr _, s') \<Rightarrow> Inr s'))"

section \<open>Calls and the states they lead to\<close>

datatype mutation =
    SetOpeningHours "rawSpec list" "string option"
  | AddOpeningHour string string string "string option"
  | AddOpeningHoursBatch "rawSpec list" "string option"
  | RemoveOpeningHoursForDay string "string option"

fun mutate :: "env \<Rightarrow> mutation \<Rightarrow> service \<Rightarrow> (error + unit) \<times> service" where
  "mutate env (SetOpeningHours hours tz) s = setOpeningHours env hours tz s"
| "mutate env (AddOpeningHour day opensAt closesAt tz) s =
     addOpeningHour env day opensAt closesAt tz s"
| "mutate env (AddOpeningHoursBatch hours tz) s = addOpeningHoursBatch env hours tz s"
| "mutate env (RemoveOpeningHoursForDay day tz) s = removeOpeningHoursForDay env day tz s"

text \<open>
  The states a service goes through: the object a constructor call without initial hours
  leaves (a constructor call with initial hours is that object followed by
  \<open>setOpeningHours\<close>), and then any sequence of mutating calls, each of which returns
  or throws.
\<close>

definition afterCalls :: "env \<Rightarrow> string \<Rightarrow> mutation list \<Rightarrow> service" where
  "afterCalls env localZone calls =
     foldl (\<lambda>s m. snd (mutate env m s)) (emptyService localZone) calls"

section \<open>Vocabulary of the properties\<close>

text \<open>
  Intervals in numbers: the weekday as an index 0..6 (Monday is 0), opening and closing
  time in minutes since midnight. \<open>render\<close> is the record the service stores for one.
\<close>

type_synonym interval = "nat \<times> nat \<times> nat"

definition render :: "interval \<Rightarrow> spec" where
  "render iv = (case iv of (d, opn, cls) \<Rightarrow>
     \<lparr>atType = ''OpeningHoursSpecification'', dayOfWeek = days ! d,
      opens = formatHHmm opn, closes = formatHHmm cls\<rparr>)"

definition validInterval :: "interval \<Rightarrow> bool" where
  "validInterval iv = (case iv of (d, opn, cls) \<Rightarrow> d < 7 \<and> opn < cls \<and> cls \<le> 1440)"

text \<open>Times that are printed in range, whatever their order.\<close>

definition printedInterval :: "interval \<Rightarrow> bool" where
  "printedInterval iv = (case iv of (d, opn, cls) \<Rightarrow> d < 7 \<and> opn \<le> 1440 \<and> cls \<le> 1440)"

text \<open>
  A canonical list of intervals: every interval valid, the list ordered by weekday, and
  on one weekday each interval opening at least two minutes after the one before closes
  (closer ones would have been merged).
\<close>

fun canonical :: "interval list \<Rightarrow> bool" where
  "canonical [] = True"
| "canonical [a] = validInterval a"
| "canonical (a # b # rest) =
     (validInterval a
      \<and> (fst a < fst b \<or> (fst a = fst b \<and> snd (snd a) + 2 \<le> fst (snd b)))
      \<and> canonical (b # rest))"

text \<open>The weekday number of a stored record, 0 for a name that is not a weekday.\<close>

definition dayNumber :: "spec \<Rightarrow> int" where
  "dayNumber h = (case convertDayStringToNumber (dayOfWeek h) of Inr n \<Rightarrow> n | Inl _ \<Rightarrow> 0)"

text \<open>
  The well-formedness of a stored schedule in the words of its description: ordered by
  weekday and then by opening time; no opening time \<open>24:00\<close>; every closing time after
  the opening time and at most 1440 minutes; an interval closes no later than the next
  interval of the same weekday opens.
\<close>

definition orderedByDayThenOpens :: "spec \<Rightarrow> spec \<Rightarrow> bool" where
  "orderedByDayThenOpens a b =
     (dayNumber a < dayNumber b
      \<or> (dayNumber a = dayNumber b
          \<and> js_le (convertTimeToMinutes (opens a)) (convertTimeToMinutes (opens b))))"

definition properRange :: "spec \<Rightarrow> bool" where
  "properRange h =
     (dayOfWeek h \<in> set days \<and> opens h \<noteq> ''24:00''
      \<and> (case (convertTimeToMinutes (opens h), convertTimeToMinutes (closes h)) of
            (Fin opn, Fin cls) \<Rightarrow> opn < cls \<and> cls \<le> 1440
          | _ \<Rightarrow> False))"

definition closesBeforeNextOpens :: "spec \<Rightarrow> spec \<Rightarrow> bool" where
  "closesBeforeNextOpens a b =
     (dayOfWeek a \<noteq> dayOfWeek b
      \<or> js_le (convertTimeToMinutes (closes a)) (convertTimeToMinutes (opens b)))"

definition wellFormedSchedule :: "spec list \<Rightarrow> bool" where
  "wellFormedSchedule hs =
     (sorted_wrt orderedByDayThenOpens hs
      \<and> list_all properRange hs
      \<and> successively closesBeforeNextOpens hs)"

definition isInvalidTimeRange :: "error + 'a \<Rightarrow> bool" where
  "isInvalidTimeRange r =
     (case r of Inl (InvalidTimeRange _ _ _) \<Rightarrow> True | _ \<Rightarrow> False)"

definition isOverlapError :: "error + 'a \<Rightarrow> bool" where
  "isOverlapError r =
     (case r of Inl (OverlapError _ _ _ _ _) \<Rightarrow> True | _ \<Rightarrow> False)"

section \<open>Environments\<close>

text \<open>
  An environment in which no zone changes its clocks during the reference week: every
  zone that is recognised has one UTC offset, in minutes; the reference instant for day
  index 0 falls on the local date \<open>sunday\<close> and the one for day index \<open>i\<close> falls
  \<open>i\<close> days later; \<open>setHours\<close> gives the wall clock it is asked for; and the
  collaborator moves a wall clock by the difference of the two offsets. (The end of the
  range of \<open>Date\<close>, some 270000 years from 1970, is not part of this environment.)
\<close>

definition fixedEnv :: "(string \<Rightarrow> int option) \<Rightarrow> int \<Rightarrow> env" where
  "fixedEnv zones sunday =
     \<lparr>referenceDate = (\<lambda>i. sunday + i),
      setHoursClock = Some,
      zonedClock = (\<lambda>fromZone toZone w.
        case (zones fromZone, zones toZone) of
          (Some offFrom, Some offTo) \<Rightarrow> Some (w - offFrom + offTo)
        | _ \<Rightarrow> None)\<rparr>"

text \<open>
  Three zones with their offsets in a week of November 2026, and the reference
  date 2026-11-08.
\<close>

definition demoZones :: "string \<Rightarrow> int option" where
  "demoZones z =
     (if z = ''UTC'' then Some 0
      else if z = ''America/New_York'' then Some (-300)
      else if z = ''Asia/Tokyo'' then Some 540
      else None)"

definition demoEnv :: env where
  "demoEnv = fixedEnv demoZones 20765"

text \<open>
  The internal zone keeps its clocks through the reference week: on each of the seven
  reference dates \<open>setHours\<close> gives the wall clock it is asked for, and converting a
  wall clock of these dates from the zone to the same zone returns it.
\<close>

definition steadyZone :: "env \<Rightarrow> string \<Rightarrow> bool" where
  "steadyZone env z =
     (\<forall>i\<in>{0..6}. \<forall>t\<in>{0..<1440}.
        setHoursClock env (referenceDate env i * 1440 + t) = Some (referenceDate env i * 1440 + t)
        \<and> zonedClock env z z (referenceDate env i * 1440 + t)
            = Some (referenceDate env i * 1440 + t))"

text \<open>
  Two weeks in which the clocks of the process zone change on the reference Sunday,
  2026-03-08, which is the reference date of Monday (day index 0). In America/New_York
  the wall clocks from 02:00 to 02:59 of that date are skipped, in America/Havana those
  from 00:00 to 00:59; \<open>setHours\<close> moves such a wall clock forward by an hour. Only the
  conversion of the zone to itself is described, which returns the wall clock.
\<close>

definition springForwardWeek :: "string \<Rightarrow> int \<Rightarrow> env" where
  "springForwardWeek zone gapStart =
     \<lparr>referenceDate = (\<lambda>i. 20520 + i),
      setHoursClock = (\<lambda>w.
        if 20520 * 1440 + gapStart \<le> w \<and> w < 20520 * 1440 + gapStart + 60
        then Some (w + 60) else Some w),
      zonedClock = (\<lambda>fromZone toZone w.
        if fromZone = zone \<and> toZone = zone then Some w else None)\<rparr>"

definition newYorkSpringWeek :: env where
  "newYorkSpringWeek = springForwardWeek ''America/New_York'' 120"

definition havanaSpringWeek :: env where
  "havanaSpringWeek = springForwardWeek ''America/Havana'' 0"

text \<open>The week before, in which neither zone changes its clocks.\<close>

definition winterWeek :: env where
  "winterWeek =
     fixedEnv (\<lambda>z. if z = ''America/New_York'' \<or> z = ''America/Havana'' then Some (-300)
                    else None) 20513"

definition entry :: "string \<Rightarrow> string \<Rightarrow> string \<Rightarrow> rawSpec" where
  "entry day opn cls =
     \<lparr>rawType = ''OpeningHoursSpecification'', rawDayOfWeek = Single day,
      rawOpens = opn, rawCloses = cls\<rparr>"

definition stored :: "string \<Rightarrow> string \<Rightarrow> string \<Rightarrow> spec" where
  "stored day opn cls =
     \<lparr>atType = ''OpeningHoursSpecification'', dayOfWeek = day, opens = opn, closes = cls\<rparr>"

definition mondayMorning :: service where
  "mondayMorning =
     \<lparr>openingHours = [stored ''Monday'' ''09:00'' ''12:00''], userTimezone = ''UTC'',
      openingHoursInstance =
        Engine ''Mo 09:00-12:00; Tu off; We off; Th off; Fr off; Sa off; Su off''\<rparr>"

definition mondayEarly :: service where
  "mondayEarly =
     \<lparr>openingHours = [stored ''Monday'' ''08:00'' ''09:00''], userTimezone = ''UTC'',
      openingHoursInstance =
        Engine ''Mo 08:00-09:00; Tu off; We off; Th off; Fr off; Sa off; Su off''\<rparr>"

text \<open>
  Two records of one weekday whose minute ranges have at least two minutes in common.
\<close>

definition overlapByTwo :: "spec \<Rightarrow> spec \<Rightarrow> bool" where
  "overlapByTwo x y =
     (dayOfWeek x = dayOfWeek y
      \<and> (case (convertTimeToMinutes (opens x), convertTimeToMinutes (closes x),
                convertTimeToMinutes (opens y), convertTimeToMinutes (closes y)) of
            (Fin a, Fin b, Fin c, Fin d) \<Rightarrow> min b d - max a c \<ge> 2
          | _ \<Rightarrow> False))"

text \<open>Two overlapping ranges of one weekday with a range of another weekday between them.\<close>

definition scatteredOverlap :: "rawSpec list" where
  "scatteredOverlap =
     [entry ''Monday'' ''09:00'' ''12:00'', entry ''Tuesday'' ''09:00'' ''18:00'',
      entry ''Monday'' ''11:00'' ''18:00'']"

definition twoOverlapping :: "rawSpec list" where
  "twoOverlapping = [entry ''Monday'' ''10:00'' ''11:30'', entry ''Monday'' ''11:00'' ''18:00'']"

text \<open>
  A number that a double holds exactly and on which the arithmetic of the service is
  exact: a whole number of magnitude at most \<open>2^32\<close>. A time whose hour and minute
  fields are such numbers, and one whose fields are such numbers or \<open>NaN\<close>.
\<close>

definition wholeNumber :: "jsnum \<Rightarrow> bool" where
  "wholeNumber x = (case x of Fin q \<Rightarrow> q = of_int \<lfloor>q\<rfloor> \<and> \<bar>q\<bar> \<le> 2 ^ 32 | _ \<Rightarrow> False)"

definition wholeTime :: "string \<Rightarrow> bool" where
  "wholeTime t = (wholeNumber (hoursOf t) \<and> wholeNumber (minutesOf t))"

definition plainTime :: "string \<Rightarrow> bool" where
  "plainTime t =
     ((hoursOf t = NaN \<or> wholeNumber (hoursOf t))
      \<and> (minutesOf t = NaN \<or> wholeNumber (minutesOf t)))"

text \<open>A time whose hour or minute field \<open>Number\<close> reads as \<open>NaN\<close>.\<close>

definition unreadable :: "string \<Rightarrow> bool" where
  "unreadable t = (hoursOf t = NaN \<or> minutesOf t = NaN)"

section \<open>The pipeline on intervals in numbers\<close>

text \<open>
  The sorting, merging and checking steps as they act on intervals in numbers; the
  lemmas below show that the service's functions compute exactly these on rendered
  records.
\<close>

definition sortKey :: "interval \<Rightarrow> nat" where
  "sortKey iv = fst iv * 1441 + fst (snd iv)"

fun mergeFrom :: "interval \<Rightarrow> interval list \<Rightarrow> interval list" where
  "mergeFrom cur [] = [cur]"
| "mergeFrom cur (nxt # rest) =
     (if fst cur = fst nxt \<and> \<bar>int (snd (snd cur)) - int (fst (snd nxt))\<bar> \<le> 1
      then mergeFrom (fst cur, fst (snd cur), max (snd (snd cur)) (snd (snd nxt))) rest
      else cur # mergeFrom nxt rest)"

definition mergeAdjacent :: "interval list \<Rightarrow> interval list" where
  "mergeAdjacent ivs = (case ivs of [] \<Rightarrow> [] | iv # rest \<Rightarrow> mergeFrom iv rest)"

fun integrity :: "interval list \<Rightarrow> bool" where
  "integrity [] = True"
| "integrity (cur # rest) =
     (fst (snd cur) \<noteq> 1440 \<and> fst (snd cur) < snd (snd cur)
      \<and> (case rest of
            [] \<Rightarrow> True
          | nxt # _ \<Rightarrow> \<not> (fst cur = fst nxt \<and> snd (snd cur) > fst (snd nxt)))
      \<and> integrity rest)"

definition normalize :: "interval list \<Rightarrow> interval list" where
  "normalize ivs = mergeAdjacent (sort_key sortKey ivs)"

text \<open>Two consecutive intervals that the merging step leaves as two.\<close>

definition apart :: "interval \<Rightarrow> interval \<Rightarrow> bool" where
  "apart x y = (\<not> (fst x = fst y \<and> \<bar>int (snd (snd x)) - int (fst (snd y))\<bar> \<le> 1))"

text \<open>
  What every state of a service satisfies: the stored records are the rendering of a
  canonical list.
\<close>

definition stateInv :: "service \<Rightarrow> bool" where
  "stateInv s = (\<exists>ivs. openingHours s = map render ivs \<and> canonical ivs)"

text \<open>
  Some element of a list stands in a relation to a later one; two intervals sharing two
  minutes; and an interval that closes two minutes or more after a later one of the same
  weekday opens.
\<close>

fun pairIn :: "('a \<Rightarrow> 'a \<Rightarrow> bool) \<Rightarrow> 'a list \<Rightarrow> bool" where
  "pairIn Q [] = False"
| "pairIn Q (x # xs) = ((\<exists>y\<in>set xs. Q x y) \<or> pairIn Q xs)"

definition sharesTwo :: "interval \<Rightarrow> interval \<Rightarrow> bool" where
  "sharesTwo x y =
     (fst x = fst y
      \<and> int (min (snd (snd x)) (snd (snd y))) - int (max (fst (snd x)) (fst (snd y))) \<ge> 2)"

definition clashes :: "interval \<Rightarrow> interval \<Rightarrow> bool" where
  "clashes x y = (fst x = fst y \<and> snd (snd x) \<ge> fst (snd y) + 2)"

section \<open>Printing and reading times\<close>

lemma digit_cases:
  "(d::nat) < 10 \<Longrightarrow>
     d = 0 \<or> d = 1 \<or> d = 2 \<or> d = 3 \<or> d = 4 \<or> d = 5 \<or> d = 6 \<or> d = 7 \<or> d = 8 \<or> d = 9"
  by arith

lemma digitChar_props:
  assumes "d < 10"
  shows "isDigit (digitChar d)" "digitVal (digitChar d) = d"
  using digit_cases[OF assms] by (auto simp: isDigit_def digitVal_def digitChar_def)

lemma digitChar_not_colon: "d < 10 \<Longrightarrow> digitChar d \<noteq> CHR '':''"
  using digit_cases[of d] by (auto simp: digitChar_def)

lemma digit_is_plain:
  assumes "isDigit c"
  shows "\<not> isWhiteSpace c" "c \<noteq> CHR ''+''" "c \<noteq> CHR ''-''" "c \<noteq> CHR ''.''"
  using assms by (auto simp: isDigit_def isWhiteSpace_def)

lemma js_double_nat: "n \<le> 9007199254740992 \<Longrightarrow> js_double (of_nat n) = Fin (of_nat n)"
proof -
  assume "n \<le> 9007199254740992"
  then have "(of_nat n :: rat) \<le> of_nat 9007199254740992" by (simp only: of_nat_le_iff)
  then have "\<bar>of_nat n :: rat\<bar> \<le> 9007199254740992" by simp
  moreover have "(of_nat n :: rat) = 0 \<or> 1 \<le> \<bar>of_nat n :: rat\<bar>" by (cases n) simp_all
  ultimately show ?thesis by (simp only: js_double_def simp_thms if_True)
qed

lemma js_double_int: "\<bar>k\<bar> \<le> 9007199254740992 \<Longrightarrow> js_double (of_int k) = Fin (of_int k)"
proof -
  assume "\<bar>k\<bar> \<le> 9007199254740992"
  then have "(of_int \<bar>k\<bar> :: rat) \<le> of_int 9007199254740992" by (simp only: of_int_le_iff)
  then have "\<bar>of_int k :: rat\<bar> \<le> 9007199254740992" by simp
  moreover have "(of_int k :: rat) = 0 \<or> 1 \<le> \<bar>of_int k :: rat\<bar>"
  proof (cases "k = 0")
    case False
    then have "1 \<le> \<bar>k\<bar>" by simp
    then have "(of_int 1 :: rat) \<le> of_int \<bar>k\<bar>" by (simp only: of_int_le_iff)
    then show ?thesis by simp
  qed simp
  ultimately show ?thesis by (simp only: js_double_def simp_thms if_True)
qed

lemma js_Number_two_digits:
  assumes "isDigit a" "isDigit b"
  shows "js_Number [a, b] = Fin (of_nat (10 * digitVal a + digitVal b))"
proof -
  have t: "trim [a, b] = [a, b]"
    using digit_is_plain(1)[OF assms(1)] digit_is_plain(1)[OF assms(2)] by (simp add: trim_def)
  have r: "radixLiteral [a, b] = None" by (simp add: radixLiteral_def)
  have v: "digitVal a < 10" "digitVal b < 10"
    using assms by (auto simp: isDigit_def digitVal_def)
  have u: "unsignedDecimal [a, b] = js_double (of_nat (10 * digitVal a + digitVal b))"
    using assms by (simp add: unsignedDecimal_def exponentPart_def power10_def radixValue_def)
  have d: "decimalLiteral [a, b] = unsignedDecimal [a, b]"
    using digit_is_plain(2,3)[OF assms(1)] by (simp add: decimalLiteral_def)
  have "js_double (of_nat (10 * digitVal a + digitVal b)) = Fin (of_nat (10 * digitVal a + digitVal b))"
    using v by (intro js_double_nat) simp
  then show ?thesis by (simp add: js_Number_def t r d u del: of_nat_add of_nat_mult)
qed

lemma js_Number_pad2: "n < 100 \<Longrightarrow> js_Number (pad2 n) = Fin (of_nat n)"
proof -
  assume n: "n < 100"
  then have e: "10 * (n div 10 mod 10) + n mod 10 = n" by simp
  have "js_Number (pad2 n)
          = Fin (of_nat (10 * digitVal (digitChar (n div 10 mod 10)) + digitVal (digitChar (n mod 10))))"
    unfolding pad2_def by (rule js_Number_two_digits) (simp_all add: digitChar_props)
  then show ?thesis using n by (simp only: digitChar_props e mod_less_divisor zero_less_numeral)
qed

lemma js_split_format:
  "t < 6000 \<Longrightarrow> js_split CHR '':'' (formatHHmm t) = [pad2 (t div 60), pad2 (t mod 60)]"
  by (simp add: formatHHmm_def pad2_def digitChar_not_colon)

lemma hoursOf_format: "t < 6000 \<Longrightarrow> hoursOf (formatHHmm t) = Fin (of_nat (t div 60))"
  by (simp add: hoursOf_def js_split_format js_Number_pad2)

lemma minutesOf_format: "t < 6000 \<Longrightarrow> minutesOf (formatHHmm t) = Fin (of_nat (t mod 60))"
  by (simp add: minutesOf_def js_split_format js_Number_pad2)

lemma ctm_format: "t \<le> 1440 \<Longrightarrow> convertTimeToMinutes (formatHHmm t) = Fin (of_nat t)"
proof -
  assume t: "t \<le> 1440"
  have e: "60 * (t div 60) + t mod 60 = t" by simp
  have s: "js_scale 60 (Fin (of_nat (t div 60))) = Fin (of_nat (60 * (t div 60)))"
    using t js_double_nat[of "60 * (t div 60)"] by (simp add: js_scale_def)
  have a: "js_add (Fin (of_nat (60 * (t div 60)))) (Fin (of_nat (t mod 60))) = Fin (of_nat t)"
    using t js_double_nat[of "60 * (t div 60) + t mod 60"]
    by (simp add: js_add_def del: of_nat_add of_nat_mult) (simp only: e flip: of_nat_add)
  have "t div 60 = 24 \<and> t mod 60 = 0 \<Longrightarrow> t = 1440" using e by arith
  then have m: "(of_nat (t div 60) :: rat) = 24 \<and> (of_nat (t mod 60) :: rat) = 0
                  \<Longrightarrow> (of_nat t :: rat) = 1440"
    by (metis of_nat_eq_0_iff of_nat_eq_iff of_nat_numeral)
  show ?thesis
    using t m by (auto simp add: convertTimeToMinutes_def hoursOf_format minutesOf_format s a
        simp del: of_nat_add of_nat_mult)
qed

lemma js_compare_Fin [simp]:
  "js_lt (Fin x) (Fin y) \<longleftrightarrow> x < y"
  "js_le (Fin x) (Fin y) \<longleftrightarrow> x \<le> y"
  "js_gt (Fin x) (Fin y) \<longleftrightarrow> y < x"
  by (auto simp: js_lt_def js_le_def js_gt_def)

lemma js_sub_nat:
  assumes "a \<le> 1440" "b \<le> 1440"
  shows "js_sub (Fin (of_nat a)) (Fin (of_nat b)) = Fin (of_int (int a - int b))"
proof -
  have "js_double (of_int (int a - int b)) = Fin (of_int (int a - int b))"
    using assms by (intro js_double_int) simp
  then show ?thesis by (simp add: js_sub_def js_neg_def js_add_def)
qed

lemma ctm_format_lt:
  "a \<le> 1440 \<Longrightarrow> b \<le> 1440
     \<Longrightarrow> js_lt (convertTimeToMinutes (formatHHmm a)) (convertTimeToMinutes (formatHHmm b))
           \<longleftrightarrow> a < b"
  by (simp add: ctm_format)

lemma ctm_format_le:
  "a \<le> 1440 \<Longrightarrow> b \<le> 1440
     \<Longrightarrow> js_le (convertTimeToMinutes (formatHHmm a)) (convertTimeToMinutes (formatHHmm b))
           \<longleftrightarrow> a \<le> b"
  by (simp add: ctm_format)

lemma ctm_format_gt:
  "a \<le> 1440 \<Longrightarrow> b \<le> 1440
     \<Longrightarrow> js_gt (convertTimeToMinutes (formatHHmm a)) (convertTimeToMinutes (formatHHmm b))
           \<longleftrightarrow> b < a"
  by (simp add: ctm_format)

lemma ctm_format_in_day:
  "a \<le> 1440 \<Longrightarrow> \<not> js_gt (convertTimeToMinutes (formatHHmm a)) (Fin 1440)"
proof -
  assume "a \<le> 1440"
  then have "(of_nat a :: rat) \<le> of_nat 1440" by (simp only: of_nat_le_iff)
  then show ?thesis using \<open>a \<le> 1440\<close> by (simp add: ctm_format)
qed

lemma format_inj:
  "a \<le> 1440 \<Longrightarrow> b \<le> 1440 \<Longrightarrow> formatHHmm a = formatHHmm b \<longleftrightarrow> a = b"
proof
  assume a: "a \<le> 1440" and b: "b \<le> 1440" and e: "formatHHmm a = formatHHmm b"
  have "Fin (of_nat a) = convertTimeToMinutes (formatHHmm a)" using a by (simp only: ctm_format)
  also have "\<dots> = Fin (of_nat b)" using b by (simp only: e ctm_format)
  finally show "a = b" by simp
qed simp

lemma format_2400: "formatHHmm 1440 = ''24:00''"
  by (simp add: formatHHmm_def pad2_def digitChar_def)

lemma format_0000: "formatHHmm 0 = ''00:00''"
  by (simp add: formatHHmm_def pad2_def digitChar_def)

lemma format_eq_2400: "t \<le> 1440 \<Longrightarrow> formatHHmm t = ''24:00'' \<longleftrightarrow> t = 1440"
  using format_inj[of t 1440] by (simp add: format_2400)

lemma format_eq_0000: "t \<le> 1440 \<Longrightarrow> formatHHmm t = ''00:00'' \<longleftrightarrow> t = 0"
  using format_inj[of t 0] by (simp add: format_0000)

section \<open>Weekday names\<close>

lemma day_cases:
  "(d::nat) < 7 \<Longrightarrow> d = 0 \<or> d = 1 \<or> d = 2 \<or> d = 3 \<or> d = 4 \<or> d = 5 \<or> d = 6"
  by arith

lemma dayNumber_of_index: "d < 7 \<Longrightarrow> convertDayStringToNumber (days ! d) = Inr (int d + 1)"
  using day_cases[of d] by (auto simp: days_def convertDayStringToNumber_def)

lemma indexOf_days: "d < 7 \<Longrightarrow> indexOf days (days ! d) = int d"
  using day_cases[of d] by (auto simp: days_def)

lemma days_inj: "a < 7 \<Longrightarrow> b < 7 \<Longrightarrow> days ! a = days ! b \<longleftrightarrow> a = b"
proof
  assume a: "a < 7" and b: "b < 7" and e: "days ! a = days ! b"
  have "int a = indexOf days (days ! a)" using a by (simp only: indexOf_days)
  also have "\<dots> = int b" using b by (simp only: e indexOf_days)
  finally show "a = b" by simp
qed simp

lemma days_length: "length days = 7"
  by (simp add: days_def)

lemma day_in_days: "d < 7 \<Longrightarrow> days ! d \<in> set days"
  by (simp add: days_length)

lemma in_days_index: "x \<in> set days \<Longrightarrow> \<exists>d<7. x = days ! d"
  by (auto simp: in_set_conv_nth days_length)

lemma dayNumber_valid_iff:
  "(\<exists>n. convertDayStringToNumber x = Inr n) \<longleftrightarrow> x \<in> set days"
  by (auto simp: convertDayStringToNumber_def days_def)

section \<open>What a call leaves of the service\<close>

lemma getOpenRangePerDay_default:
  "getOpenRangePerDay env None s =
     (Inr (map (\<lambda>(day, ranges). \<lparr>perDayType = ''OpenRangePerDay'', perDayOfWeek = day,
                 openRanges = ranges\<rparr>) (groupByDay (openingHours s))), s)"
  by (simp add: getOpenRangePerDay_def)

lemma getOpenRangePerDay_frame: "snd (getOpenRangePerDay env tz s) = s"
  by (simp add: getOpenRangePerDay_def Let_def split: sum.splits)

lemma getOpenRangeForDay_frame: "snd (getOpenRangeForDay env day tz s) = s"
  using getOpenRangePerDay_frame[of env tz s]
  by (auto simp: getOpenRangeForDay_def split: prod.splits sum.splits option.splits)

lemma generate_succeeds: "fst (generateOpeningHoursInstance env s) = Inr ()"
  by (simp add: generateOpeningHoursInstance_def getOpenRangePerDay_default Let_def)

lemma generate_fields:
  "openingHours (snd (generateOpeningHoursInstance env s)) = openingHours s"
  "userTimezone (snd (generateOpeningHoursInstance env s)) = userTimezone s"
  by (simp_all add: generateOpeningHoursInstance_def getOpenRangePerDay_default Let_def)

lemma setOpeningHours_failure:
  "fst (setOpeningHours env hours tz s) = Inl e \<Longrightarrow> snd (setOpeningHours env hours tz s) = s"
  by (auto simp: setOpeningHours_def Let_def generate_succeeds split: sum.splits)

lemma addOpeningHoursBatch_failure:
  "fst (addOpeningHoursBatch env hours tz s) = Inl e
     \<Longrightarrow> snd (addOpeningHoursBatch env hours tz s) = s"
  by (auto simp: addOpeningHoursBatch_def Let_def generate_succeeds split: sum.splits)

lemma removeOpeningHoursForDay_failure:
  "fst (removeOpeningHoursForDay env day tz s) = Inl e
     \<Longrightarrow> snd (removeOpeningHoursForDay env day tz s) = s"
  by (auto simp: removeOpeningHoursForDay_def Let_def setOpeningHours_failure split: sum.splits)

text \<open>
  C2. Whichever mutating call is made (\<open>setOpeningHours\<close>, \<open>addOpeningHour\<close>,
  \<open>addOpeningHoursBatch\<close>, \<open>removeOpeningHoursForDay\<close>) and whatever error it throws, the
  service object after the call is the object before it: the stored schedule, the
  internal zone and the compiled engine instance are untouched, so nothing of the batch
  is applied.
\<close>

theorem mutation_failure_keeps_service:
  "fst (mutate env m s) = Inl e \<Longrightarrow> snd (mutate env m s) = s"
  by (cases m) (simp_all add: setOpeningHours_failure addOpeningHoursBatch_failure
      removeOpeningHoursForDay_failure addOpeningHour_def)

theorem mutation_failure_keeps_service_witness:
  "fst (mutate demoEnv (AddOpeningHour ''Monday'' ''11:00'' ''18:00'' (Some ''UTC''))
          mondayMorning)
     = Inl (OverlapError ''Monday'' ''09:00'' ''12:00'' ''11:00'' ''18:00'')
   \<and> snd (mutate demoEnv (AddOpeningHour ''Monday'' ''11:00'' ''18:00'' (Some ''UTC''))
            mondayMorning)
     = mondayMorning"
proof -
  have h: "fst (mutate demoEnv (AddOpeningHour ''Monday'' ''11:00'' ''18:00'' (Some ''UTC''))
                  mondayMorning)
             = Inl (OverlapError ''Monday'' ''09:00'' ''12:00'' ''11:00'' ''18:00'')"
    by code_simp
  from mutation_failure_keeps_service[OF h] h show ?thesis by simp
qed

text \<open>
  The read operations \<open>exportOpeningHours\<close>, \<open>getOpenRangePerDay\<close>,
  \<open>getOpenRangeForDay\<close>, \<open>getTotalOpenHours\<close>, \<open>getDaysWithoutOpeningHours\<close> and
  \<open>validateOpeningHours\<close> return the service object as they found it, stored schedule
  and engine instance included, for every input and also when they throw.
\<close>

lemma read_operations_frame:
  "snd (exportOpeningHours env tz s) = s
   \<and> snd (getOpenRangePerDay env tz s) = s
   \<and> snd (getOpenRangeForDay env day tz s) = s
   \<and> snd (getTotalOpenHours s) = s
   \<and> snd (getDaysWithoutOpeningHours s) = s
   \<and> snd (validateOpeningHours hours s) = s"
  by (auto simp: exportOpeningHours_def getOpenRangePerDay_frame getOpenRangeForDay_frame
      getTotalOpenHours_def getDaysWithoutOpeningHours_def validateOpeningHours_def Let_def
      split: sum.splits prod.splits option.splits)

text \<open>
  C9. \<open>validateOpeningHours\<close> is documented to ensure "that opening and closing times
  are valid, and there are no overlaps or invalid entries" and to return false
  otherwise, and C9 has it answer false on any validation or integrity error. It leaves
  the service unchanged and never throws, but it runs the integrity check on the hours
  in the order given, without the weekday check, the conversion and the sort that
  \<open>setOpeningHours\<close> runs first. For Monday 09:00-12:00, Tuesday 09:00-18:00, Monday
  11:00-18:00 it answers true although the two Monday ranges overlap and
  \<open>setOpeningHours\<close> rejects the same hours with the overlap error; and it answers
  true for the weekday Funday with the times abc and def, which \<open>setOpeningHours\<close>
  rejects as an invalid weekday.
\<close>

theorem validate_accepts_hours_that_set_rejects:
  "validateOpeningHours (Some scatteredOverlap) (emptyService ''UTC'')
     = (True, emptyService ''UTC'')
   \<and> isOverlapError
        (fst (setOpeningHours demoEnv scatteredOverlap (Some ''UTC'') (emptyService ''UTC'')))
   \<and> validateOpeningHours (Some [entry ''Funday'' ''abc'' ''def'']) (emptyService ''UTC'')
     = (True, emptyService ''UTC'')
   \<and> fst (setOpeningHours demoEnv [entry ''Funday'' ''abc'' ''def''] (Some ''UTC'')
             (emptyService ''UTC''))
     = Inl (InvalidWeekday ''Funday'')"
  by code_simp

section \<open>Preprocessing\<close>

lemma flatMapE_Inr_all: "flatMapE f xs = Inr ys \<Longrightarrow> x \<in> set xs \<Longrightarrow> \<exists>y. f x = Inr y"
  by (induction xs arbitrary: ys) (auto split: sum.splits)

lemma flatMapE_Inl_some: "flatMapE f xs = Inl e \<Longrightarrow> \<exists>x\<in>set xs. f x = Inl e"
  by (induction xs) (auto split: sum.splits)

lemma flatMapE_Inr_concat:
  "flatMapE f xs = Inr ys \<Longrightarrow> ys = concat (map (\<lambda>x. projr (f x)) xs)"
  by (induction xs arbitrary: ys) (auto split: sum.splits)

lemma preprocess_error_kind:
  "preprocessOpeningHours hours = Inl e \<Longrightarrow> \<exists>d x y. e = InvalidTimeRange d x y"
  by (auto simp: preprocessOpeningHours_def dest!: flatMapE_Inl_some split: if_splits)

lemma preprocess_rejects:
  assumes "sp \<in> set (normalizeAndSplitDays hours)"
    and "timeIsBefore (closes sp) (opens sp) \<or> closes sp = opens sp"
  shows "\<exists>d x y. preprocessOpeningHours hours = Inl (InvalidTimeRange d x y)"
proof (cases "preprocessOpeningHours hours")
  case (Inl e)
  then show ?thesis using preprocess_error_kind by blast
next
  case (Inr ys)
  then have "\<exists>y. (if timeIsBefore (closes sp) (opens sp) \<or> closes sp = opens sp
        then Inl (InvalidTimeRange (dayOfWeek sp) (opens sp) (closes sp))
        else Inr [sp]) = Inr y"
    using assms(1) flatMapE_Inr_all unfolding preprocessOpeningHours_def by fast
  with assms(2) show ?thesis by simp
qed

lemma flatMapE_guard:
  "flatMapE (\<lambda>x. if P x then Inl (g x) else Inr [x]) xs = Inr ys \<Longrightarrow> ys = xs"
  by (induction xs arbitrary: ys) (auto split: sum.splits if_splits)

lemma preprocess_keeps:
  "preprocessOpeningHours hours = Inr ps \<Longrightarrow> ps = normalizeAndSplitDays hours"
  unfolding preprocessOpeningHours_def by (rule flatMapE_guard)

lemma bad_times:
  assumes "a \<le> 1440" "b \<le> 1440" "b \<le> a"
  shows "timeIsBefore (formatHHmm b) (formatHHmm a) \<or> formatHHmm b = formatHHmm a"
  using assms by (cases "b = a") (auto simp: timeIsBefore_def ctm_format_lt)

lemma candidate_expands:
  assumes "r \<in> set hours" "rawDayOfWeek r \<noteq> Several []"
  shows "\<exists>sp\<in>set (normalizeAndSplitDays hours). opens sp = rawOpens r \<and> closes sp = rawCloses r"
proof -
  have "\<exists>day. day \<in> set (case rawDayOfWeek r of Single d \<Rightarrow> [d] | Several ds \<Rightarrow> ds)"
    using assms(2) by (cases "rawDayOfWeek r") (auto simp: neq_Nil_conv)
  then obtain day
    where "day \<in> set (case rawDayOfWeek r of Single d \<Rightarrow> [d] | Several ds \<Rightarrow> ds)" ..
  then show ?thesis using assms(1) unfolding normalizeAndSplitDays_def
    by (auto intro!: bexI[of _ r] bexI[of _ day])
qed

text \<open>
  C8 as first written fails for a candidate whose two times are the same number of
  minutes in different spellings: \<open>9:00\<close> and \<open>09:00\<close> are both 540 minutes, the
  range check compares the closing with the opening time as numbers for "before" but as
  strings for "equal", and so lets the candidate pass. Next to a stored Monday
  08:00-09:00 the converted range 09:00-09:00 is absorbed by the merge, and the call
  returns normally.
\<close>

theorem equal_minutes_counterexample:
  "convertTimeToMinutes ''9:00'' = Fin 540 \<and> convertTimeToMinutes ''09:00'' = Fin 540
   \<and> mutate demoEnv (AddOpeningHour ''Monday'' ''09:00'' ''9:00'' (Some ''UTC'')) mondayEarly
       = (Inr (), mondayEarly)"
  by code_simp

text \<open>
  C8 (amended). A batch given to \<open>setOpeningHours\<close> or \<open>addOpeningHoursBatch\<close> that
  contains a candidate whose closing time is the same string as its opening time, or
  whose times have whole-number hour and minute fields and a closing time that is less
  than the opening time in minutes since midnight, and likewise such a candidate given
  to \<open>addOpeningHour\<close>, makes the call fail with the "Invalid time range" error,
  whatever else the batch, the zone and the service hold; the service is left as it was,
  so no converted output is stored. For times written as two-digit \<open>HH:mm\<close> from 00:00
  to 24:00 this is every candidate whose closing time is not after its opening time. (A
  candidate whose weekday field is an empty array expands to nothing and is not a
  candidate.)
\<close>

theorem reversed_range_is_rejected:
  assumes "r \<in> set hours" and "rawDayOfWeek r \<noteq> Several []"
    and "rawCloses r = rawOpens r
         \<or> (wholeTime (rawOpens r) \<and> wholeTime (rawCloses r)
             \<and> js_lt (convertTimeToMinutes (rawCloses r)) (convertTimeToMinutes (rawOpens r)))
         \<or> (\<exists>a b. a \<le> 1440 \<and> b \<le> a
                    \<and> rawOpens r = formatHHmm a \<and> rawCloses r = formatHHmm b)"
  shows "isInvalidTimeRange (fst (mutate env (SetOpeningHours hours tz) s))
       \<and> snd (mutate env (SetOpeningHours hours tz) s) = s
       \<and> isInvalidTimeRange (fst (mutate env (AddOpeningHoursBatch hours tz) s))
       \<and> snd (mutate env (AddOpeningHoursBatch hours tz) s) = s
       \<and> isInvalidTimeRange
            (fst (mutate env (AddOpeningHour day (rawOpens r) (rawCloses r) tz) s))
       \<and> snd (mutate env (AddOpeningHour day (rawOpens r) (rawCloses r) tz) s) = s"
proof -
  have bad: "timeIsBefore (rawCloses r) (rawOpens r) \<or> rawCloses r = rawOpens r"
  proof -
    from assms(3) consider "rawCloses r = rawOpens r"
      | "js_lt (convertTimeToMinutes (rawCloses r)) (convertTimeToMinutes (rawOpens r))"
      | a b where "a \<le> 1440" "b \<le> a" "rawOpens r = formatHHmm a" "rawCloses r = formatHHmm b"
      by blast
    then show ?thesis
    proof cases
      case 1
      then show ?thesis by simp
    next
      case 2
      then show ?thesis by (simp add: timeIsBefore_def)
    next
      case 3
      then have "b \<le> 1440" by simp
      from bad_times[OF 3(1) this 3(2)] show ?thesis by (simp only: 3(3,4))
    qed
  qed
  obtain sp where sp: "sp \<in> set (normalizeAndSplitDays hours)"
      "opens sp = rawOpens r" "closes sp = rawCloses r"
    using candidate_expands[OF assms(1,2)] by auto
  have "timeIsBefore (closes sp) (opens sp) \<or> closes sp = opens sp"
    using bad sp by simp
  from preprocess_rejects[OF sp(1) this]
  obtain d x y where p: "preprocessOpeningHours hours = Inl (InvalidTimeRange d x y)" by blast
  let ?one = "[\<lparr>rawType = ''OpeningHoursSpecification'', rawDayOfWeek = Single day,
         rawOpens = rawOpens r, rawCloses = rawCloses r\<rparr>]"
  have "\<exists>d x y. preprocessOpeningHours ?one = Inl (InvalidTimeRange d x y)"
    using bad by (auto simp: preprocessOpeningHours_def normalizeAndSplitDays_def)
  then obtain d' x' y' where q: "preprocessOpeningHours ?one = Inl (InvalidTimeRange d' x' y')"
    by blast
  show ?thesis
    using p q by (simp add: setOpeningHours_def addOpeningHoursBatch_def addOpeningHour_def
        isInvalidTimeRange_def)
qed

theorem reversed_range_is_rejected_witness:
  "mutate demoEnv (AddOpeningHour ''Monday'' ''23:00'' ''02:00'' (Some ''UTC'')) mondayMorning
     = (Inl (InvalidTimeRange ''Monday'' ''23:00'' ''02:00''), mondayMorning)
   \<and> isInvalidTimeRange (fst (mutate demoEnv
         (SetOpeningHours [entry ''Monday'' ''23:00'' ''02:00''] (Some ''UTC'')) mondayMorning))
   \<and> snd (mutate demoEnv
         (SetOpeningHours [entry ''Monday'' ''23:00'' ''02:00''] (Some ''UTC'')) mondayMorning)
       = mondayMorning"
proof -
  have w: "wholeTime ''23:00'' \<and> wholeTime ''02:00''
           \<and> js_lt (convertTimeToMinutes ''02:00'') (convertTimeToMinutes ''23:00'')"
    by code_simp
  have "entry ''Monday'' ''23:00'' ''02:00'' \<in> set [entry ''Monday'' ''23:00'' ''02:00'']"
     "rawDayOfWeek (entry ''Monday'' ''23:00'' ''02:00'') \<noteq> Several []"
     "rawCloses (entry ''Monday'' ''23:00'' ''02:00'') = rawOpens (entry ''Monday'' ''23:00'' ''02:00'')
      \<or> (wholeTime (rawOpens (entry ''Monday'' ''23:00'' ''02:00''))
          \<and> wholeTime (rawCloses (entry ''Monday'' ''23:00'' ''02:00''))
          \<and> js_lt (convertTimeToMinutes (rawCloses (entry ''Monday'' ''23:00'' ''02:00'')))
                   (convertTimeToMinutes (rawOpens (entry ''Monday'' ''23:00'' ''02:00''))))
      \<or> (\<exists>a b. a \<le> 1440 \<and> b \<le> a
               \<and> rawOpens (entry ''Monday'' ''23:00'' ''02:00'') = formatHHmm a
               \<and> rawCloses (entry ''Monday'' ''23:00'' ''02:00'') = formatHHmm b)"
    using w by (simp_all add: entry_def)
  from reversed_range_is_rejected[OF this, where env = demoEnv and tz = "Some ''UTC''"
      and s = mondayMorning and day = "''Monday''"]
  have a: "isInvalidTimeRange (fst (mutate demoEnv
         (SetOpeningHours [entry ''Monday'' ''23:00'' ''02:00''] (Some ''UTC'')) mondayMorning))
   \<and> snd (mutate demoEnv
         (SetOpeningHours [entry ''Monday'' ''23:00'' ''02:00''] (Some ''UTC'')) mondayMorning)
       = mondayMorning" by simp
  have b: "mutate demoEnv (AddOpeningHour ''Monday'' ''23:00'' ''02:00'' (Some ''UTC'')) mondayMorning
     = (Inl (InvalidTimeRange ''Monday'' ''23:00'' ''02:00''), mondayMorning)"
    by code_simp
  from a b show ?thesis by simp
qed

section \<open>Errors of the conversion\<close>

lemma convertTime_invalid:
  assumes "day \<in> set days"
    and "unreadable t \<or> (\<forall>w. zonedClock env f g w = None)"
  shows "convertTimeWithDayChange env t day f g = Inl InvalidTimeValue"
proof -
  obtain n where "convertDayStringToNumber day = Inr n"
    using assms(1) dayNumber_valid_iff by blast
  then show ?thesis using assms(2)
    by (auto simp: convertTimeWithDayChange_def unreadable_def js_fmod_def toInteger_def Let_def
        split: option.splits jsnum.splits)
qed

lemma convertTime_error_kind:
  assumes "day \<in> set days" and "convertTimeWithDayChange env t day f g = Inl e"
  shows "e = InvalidTimeValue"
proof -
  obtain n where "convertDayStringToNumber day = Inr n"
    using assms(1) dayNumber_valid_iff by blast
  then show ?thesis using assms(2)
    by (auto simp: convertTimeWithDayChange_def Let_def split: option.splits)
qed

lemma convertEntry_error_kind:
  assumes "dayOfWeek sp \<in> set days" and "convertAndSplitEntry env sp f g = Inl e"
  shows "e = InvalidTimeValue"
  using assms convertTime_error_kind[OF assms(1)]
  by (auto simp: convertAndSplitEntry_def Let_def split: sum.splits if_splits)

lemma convertEntry_invalid:
  assumes "dayOfWeek sp \<in> set days"
    and "unreadable (opens sp) \<or> unreadable (closes sp) \<or> (\<forall>w. zonedClock env f g w = None)"
  shows "convertAndSplitEntry env sp f g = Inl InvalidTimeValue"
proof (cases "unreadable (opens sp) \<or> (\<forall>w. zonedClock env f g w = None)")
  case True
  then show ?thesis using convertTime_invalid[OF assms(1), of "opens sp" env f g]
    by (simp add: convertAndSplitEntry_def)
next
  case False
  then have "unreadable (closes sp)" using assms(2) by auto
  then have c: "convertTimeWithDayChange env (closes sp) (dayOfWeek sp) f g = Inl InvalidTimeValue"
    using convertTime_invalid[OF assms(1)] by blast
  show ?thesis
  proof (cases "convertTimeWithDayChange env (opens sp) (dayOfWeek sp) f g")
    case (Inl e)
    then show ?thesis using convertTime_error_kind[OF assms(1) Inl]
      by (simp add: convertAndSplitEntry_def)
  next
    case (Inr a)
    then show ?thesis using c by (simp add: convertAndSplitEntry_def)
  qed
qed

lemma flatMapE_fails:
  assumes "\<forall>x\<in>set xs. \<forall>e. f x = Inl e \<longrightarrow> e = err"
    and "\<exists>x\<in>set xs. f x = Inl err"
  shows "flatMapE f xs = Inl err"
proof (cases "flatMapE f xs")
  case (Inl e)
  then show ?thesis using flatMapE_Inl_some[OF Inl] assms(1) by auto
next
  case (Inr ys)
  then show ?thesis using flatMapE_Inr_all[OF Inr] assms(2) by fastforce
qed

lemma convertAll_invalid:
  assumes "\<forall>p\<in>set ps. dayOfWeek p \<in> set days"
    and "(\<exists>p\<in>set ps. unreadable (opens p) \<or> unreadable (closes p))
           \<or> (ps \<noteq> [] \<and> (\<forall>w. zonedClock env f g w = None))"
  shows "flatMapE (\<lambda>sp. convertAndSplitEntry env sp f g) ps = Inl InvalidTimeValue"
proof (rule flatMapE_fails)
  show "\<forall>x\<in>set ps. \<forall>e. convertAndSplitEntry env x f g = Inl e \<longrightarrow> e = InvalidTimeValue"
    using assms(1) convertEntry_error_kind by blast
  from assms(2) obtain p where "p \<in> set ps"
    "unreadable (opens p) \<or> unreadable (closes p) \<or> (\<forall>w. zonedClock env f g w = None)"
    by (cases ps) auto
  then show "\<exists>x\<in>set ps. convertAndSplitEntry env x f g = Inl InvalidTimeValue"
    using convertEntry_invalid assms(1) by blast
qed

text \<open>
  C7 (amended). When a batch given to \<open>setOpeningHours\<close> or \<open>addOpeningHoursBatch\<close>
  passes the range check of the preprocessing, names only the seven weekdays and has
  only hour and minute fields that \<open>Number\<close> reads as whole numbers or as \<open>NaN\<close>, the
  call fails with "Invalid time value" and leaves the service as it was, whenever the
  hour or the minute field of some opening or closing time is \<open>NaN\<close>, and whenever the
  batch is not empty and the collaborator does not recognise the input zone or the
  internal zone (it gives an invalid date for every conversion from the one to the
  other). \<open>exportOpeningHours\<close> into a zone that is not recognised fails with "Invalid
  time value" whenever the stored schedule is not empty. (Numeric times beyond 24:00 are
  not part of this statement: they are wrapped modulo 24 hours by the conversion.)
\<close>

theorem unreadable_time_or_zone_is_rejected:
  "(preprocessOpeningHours hours = Inr ps
      \<and> (\<forall>p\<in>set ps. dayOfWeek p \<in> set days \<and> plainTime (opens p) \<and> plainTime (closes p))
      \<and> ((\<exists>p\<in>set ps. unreadable (opens p) \<or> unreadable (closes p))
          \<or> (ps \<noteq> [] \<and> (\<forall>w. zonedClock env tz (userTimezone s) w = None)))
     \<longrightarrow> setOpeningHours env hours (Some tz) s = (Inl InvalidTimeValue, s)
         \<and> addOpeningHoursBatch env hours (Some tz) s = (Inl InvalidTimeValue, s))
   \<and> (openingHours s \<noteq> [] \<and> (\<forall>p\<in>set (openingHours s). dayOfWeek p \<in> set days)
        \<and> (\<forall>w. zonedClock env (userTimezone s) tz w = None)
     \<longrightarrow> exportOpeningHours env (Some tz) s = (Inl InvalidTimeValue, s))"
proof (intro conjI impI)
  assume a: "preprocessOpeningHours hours = Inr ps
      \<and> (\<forall>p\<in>set ps. dayOfWeek p \<in> set days \<and> plainTime (opens p) \<and> plainTime (closes p))
      \<and> ((\<exists>p\<in>set ps. unreadable (opens p) \<or> unreadable (closes p))
          \<or> (ps \<noteq> [] \<and> (\<forall>w. zonedClock env tz (userTimezone s) w = None)))"
  then have d: "\<forall>p\<in>set ps. dayOfWeek p \<in> set days" by blast
  from a have b: "(\<exists>p\<in>set ps. unreadable (opens p) \<or> unreadable (closes p))
          \<or> (ps \<noteq> [] \<and> (\<forall>w. zonedClock env tz (userTimezone s) w = None))" by blast
  have c: "flatMapE (\<lambda>sp. convertAndSplitEntry env sp tz (userTimezone s)) ps
                  = Inl InvalidTimeValue"
    using d b by (rule convertAll_invalid)
  from a have p: "preprocessOpeningHours hours = Inr ps" by blast
  show "setOpeningHours env hours (Some tz) s = (Inl InvalidTimeValue, s)"
    using p c by (simp add: setOpeningHours_def)
  show "addOpeningHoursBatch env hours (Some tz) s = (Inl InvalidTimeValue, s)"
    using p c by (simp add: addOpeningHoursBatch_def)
next
  assume b: "openingHours s \<noteq> [] \<and> (\<forall>p\<in>set (openingHours s). dayOfWeek p \<in> set days)
        \<and> (\<forall>w. zonedClock env (userTimezone s) tz w = None)"
  have "flatMapE (\<lambda>sp. convertAndSplitEntry env sp (userTimezone s) tz) (openingHours s)
                  = Inl InvalidTimeValue"
    using b by (intro convertAll_invalid) blast+
  then show "exportOpeningHours env (Some tz) s = (Inl InvalidTimeValue, s)"
    by (simp add: exportOpeningHours_def)
qed

theorem unreadable_time_or_zone_is_rejected_witness:
  "setOpeningHours demoEnv [entry ''Monday'' ''invalid-time'' ''12:00''] (Some ''Invalid/Timezone'')
       mondayMorning = (Inl InvalidTimeValue, mondayMorning)
   \<and> addOpeningHoursBatch demoEnv [entry ''Monday'' ''invalid-time'' ''12:00'']
       (Some ''Invalid/Timezone'') mondayMorning = (Inl InvalidTimeValue, mondayMorning)
   \<and> exportOpeningHours demoEnv (Some ''Invalid/Timezone'') mondayMorning
       = (Inl InvalidTimeValue, mondayMorning)"
proof -
  have p: "preprocessOpeningHours [entry ''Monday'' ''invalid-time'' ''12:00'']
             = Inr [stored ''Monday'' ''invalid-time'' ''12:00'']"
    by code_simp
  have t: "plainTime ''invalid-time'' \<and> plainTime ''12:00'' \<and> unreadable ''invalid-time''"
    by code_simp
  have d: "\<forall>p\<in>set [stored ''Monday'' ''invalid-time'' ''12:00''].
             dayOfWeek p \<in> set days \<and> plainTime (opens p) \<and> plainTime (closes p)"
    using t by (simp add: stored_def days_def)
  have n: "\<exists>p\<in>set [stored ''Monday'' ''invalid-time'' ''12:00''].
             unreadable (opens p) \<or> unreadable (closes p)"
    using t by (simp add: stored_def)
  have z: "\<forall>w. zonedClock demoEnv (userTimezone mondayMorning) ''Invalid/Timezone'' w = None"
    by (simp add: mondayMorning_def demoEnv_def fixedEnv_def demoZones_def)
  have e: "openingHours mondayMorning \<noteq> []
       \<and> (\<forall>p\<in>set (openingHours mondayMorning). dayOfWeek p \<in> set days)
       \<and> (\<forall>w. zonedClock demoEnv (userTimezone mondayMorning) ''Invalid/Timezone'' w = None)"
    using z by (simp add: mondayMorning_def stored_def days_def)
  show ?thesis
    using unreadable_time_or_zone_is_rejected[of "[entry ''Monday'' ''invalid-time'' ''12:00'']"
        "[stored ''Monday'' ''invalid-time'' ''12:00'']" demoEnv "''Invalid/Timezone''"
        mondayMorning] p d n e
    by blast
qed

text \<open>
  The statement C7 as first written fails: a closing time of \<open>24:01\<close> is answered with
  "Invalid time range" (as the test suite of the repository expects), and an export of
  an empty schedule into an unrecognised zone returns the empty list.
\<close>

theorem out_of_range_time_counterexample:
  "fst (setOpeningHours demoEnv [entry ''Monday'' ''09:00'' ''24:01''] None (emptyService ''UTC''))
     = Inl (InvalidTimeRange ''Monday'' ''09:00'' ''00:01'')
   \<and> fst (exportOpeningHours demoEnv (Some ''Invalid/Timezone'') (emptyService ''UTC'')) = Inr []"
  by code_simp

text \<open>An hour of 25 is read as 1 o'clock and the range is stored.\<close>

lemma hour_25_is_wrapped: "setOpeningHours demoEnv [entry ''Monday'' ''00:00'' ''25:00''] None (emptyService ''UTC'')
   = (Inr (), \<lparr>openingHours = [stored ''Monday'' ''00:00'' ''01:00''], userTimezone = ''UTC'',
        openingHoursInstance = Engine ''Mo 00:00-01:00; Tu off; We off; Th off; Fr off; Sa off; Su off''\<rparr>)"
  by code_simp

section \<open>The pipeline on rendered intervals\<close>

lemma render_simps [simp]:
  "dayOfWeek (render (d, a, b)) = days ! d"
  "opens (render (d, a, b)) = formatHHmm a"
  "closes (render (d, a, b)) = formatHHmm b"
  "atType (render (d, a, b)) = ''OpeningHoursSpecification''"
  by (simp_all add: render_def)

lemma render_inj:
  "printedInterval a \<Longrightarrow> printedInterval b \<Longrightarrow> render a = render b \<longleftrightarrow> a = b"
  by (cases a; cases b) (auto simp: render_def printedInterval_def days_inj format_inj)

lemma mayPrecede_render:
  assumes "printedInterval a" "printedInterval b"
  shows "mayPrecede (render a) (render b) \<longleftrightarrow> sortKey a \<le> sortKey b"
proof -
  obtain d x y where a: "a = (d, x, y)" by (cases a)
  obtain d' x' y' where b: "b = (d', x', y')" by (cases b)
  have p: "d < 7" "x \<le> 1440" "d' < 7" "x' \<le> 1440"
    using assms by (auto simp: a b printedInterval_def)
  have k: "d * 1441 + x \<le> d' * 1441 + x' \<longleftrightarrow> d < d' \<or> (d = d' \<and> x \<le> x')"
    using p by auto
  show ?thesis
  proof (cases "d = d'")
    case True
    then show ?thesis using p k
      by (auto simp add: a b mayPrecede_def compareOpeningHours_def sortKey_def dayNumber_of_index
          ctm_format js_sub_nat)
  next
    case False
    then show ?thesis using p k
      by (auto simp add: a b mayPrecede_def compareOpeningHours_def sortKey_def dayNumber_of_index)
  qed
qed

lemma insertHours_render:
  assumes "printedInterval x" "list_all printedInterval ys"
  shows "insertHours (render x) (map render ys) = map render (insort_key sortKey x ys)"
  using assms by (induction ys) (auto simp: mayPrecede_render)

lemma printed_insort:
  "printedInterval x \<Longrightarrow> list_all printedInterval ys \<Longrightarrow> list_all printedInterval (insort_key sortKey x ys)"
  by (simp add: list_all_iff set_insort_key)

lemma printed_sort:
  "list_all printedInterval ys \<Longrightarrow> list_all printedInterval (sort_key sortKey ys)"
  by (simp add: list_all_iff)

lemma foldr_insertHours_render:
  "list_all printedInterval ivs \<Longrightarrow>
     foldr insertHours (map render ivs) [] = map render (sort_key sortKey ivs)"
proof (induction ivs)
  case Nil then show ?case by simp
next
  case (Cons a ivs)
  then show ?case
    by (simp add: sort_key_def[symmetric] insertHours_render printed_sort)
qed

lemma sort_short: "length ivs < 2 \<Longrightarrow> sort_key sortKey ivs = ivs"
  by (cases ivs; cases "tl ivs") auto

lemma sortHours_render:
  assumes "list_all printedInterval ivs"
  shows "sortHours (map render ivs) = Inr (map render (sort_key sortKey ivs))"
proof -
  have "filter (\<lambda>h. isl (convertDayStringToNumber (dayOfWeek h))) (map render ivs) = []"
    using assms by (auto simp: filter_empty_conv list_all_iff printedInterval_def dayNumber_of_index)
  then show ?thesis using assms
    by (auto simp: sortHours_def foldr_insertHours_render sort_short)
qed

lemma timeIsBefore_format:
  "a \<le> 1440 \<Longrightarrow> b \<le> 1440 \<Longrightarrow> timeIsBefore (formatHHmm a) (formatHHmm b) \<longleftrightarrow> a < b"
  by (simp add: timeIsBefore_def ctm_format)

lemma areTimesAdjacent_format:
  "a \<le> 1440 \<Longrightarrow> b \<le> 1440 \<Longrightarrow>
     areTimesAdjacent (formatHHmm a) (formatHHmm b) \<longleftrightarrow> \<bar>int a - int b\<bar> \<le> 1"
proof -
  assume a: "a \<le> 1440" and b: "b \<le> 1440"
  have "\<bar>of_int (int a - int b) :: rat\<bar> \<le> 1 \<longleftrightarrow> \<bar>int a - int b\<bar> \<le> 1"
    by (simp only: of_int_abs[symmetric] of_int_le_1_iff)
  then show ?thesis using a b
    by (simp add: areTimesAdjacent_def ctm_format js_sub_nat js_abs_def del: of_int_diff)
qed

lemma combineFrom_render:
  assumes "printedInterval cur" "list_all printedInterval rest"
  shows "combineFrom (render cur) (map render rest) = map render (mergeFrom cur rest)"
  using assms
proof (induction rest arbitrary: cur)
  case Nil then show ?case by simp
next
  case (Cons nxt rest)
  obtain d a b where cur: "cur = (d, a, b)" by (cases cur)
  obtain d' a' b' where nxt: "nxt = (d', a', b')" by (cases nxt)
  have p: "d < 7" "a \<le> 1440" "b \<le> 1440" "d' < 7" "a' \<le> 1440" "b' \<le> 1440"
    using Cons.prems by (auto simp: cur nxt printedInterval_def)
  have m: "render cur\<lparr>closes := formatHHmm (max b b')\<rparr> = render (d, a, max b b')"
    by (simp add: cur render_def)
  have pm: "printedInterval (d, a, max b b')" using p by (simp add: printedInterval_def)
  show ?case
  proof (cases "d = d' \<and> \<bar>int b - int a'\<bar> \<le> 1")
    case True
    have "render cur\<lparr>closes :=
             (if timeIsBefore (closes (render nxt)) (closes (render cur))
              then closes (render cur) else closes (render nxt))\<rparr> = render (d, a, max b b')"
      using p by (auto simp: cur nxt render_def timeIsBefore_format max_def)
    moreover have "dayOfWeek (render cur) = dayOfWeek (render nxt)
        \<and> areTimesAdjacent (closes (render cur)) (opens (render nxt))"
      using True p by (simp add: cur nxt areTimesAdjacent_format)
    ultimately have "combineFrom (render cur) (map render (nxt # rest))
        = combineFrom (render (d, a, max b b')) (map render rest)"
      by simp
    also have "\<dots> = map render (mergeFrom (d, a, max b b') rest)"
      using Cons.IH[OF pm] Cons.prems(2) by simp
    also have "\<dots> = map render (mergeFrom cur (nxt # rest))"
      using True by (simp add: cur nxt)
    finally show ?thesis .
  next
    case False
    then show ?thesis using p Cons.IH[of nxt] Cons.prems
      by (auto simp: cur nxt areTimesAdjacent_format days_inj)
  qed
qed

lemma combineAdjacentRanges_render:
  "list_all printedInterval ivs \<Longrightarrow>
     combineAdjacentRanges (map render ivs) = map render (mergeAdjacent ivs)"
  by (cases ivs) (simp_all add: combineAdjacentRanges_def mergeAdjacent_def combineFrom_render)

lemma printed_mergeFrom:
  "printedInterval cur \<Longrightarrow> list_all printedInterval rest \<Longrightarrow>
     list_all printedInterval (mergeFrom cur rest)"
proof (induction rest arbitrary: cur)
  case Nil then show ?case by simp
next
  case (Cons nxt rest)
  have "printedInterval (fst cur, fst (snd cur), max (snd (snd cur)) (snd (snd nxt)))"
    using Cons.prems by (cases cur; cases nxt) (auto simp: printedInterval_def)
  then show ?case using Cons by auto
qed

lemma printed_mergeAdjacent:
  "list_all printedInterval ivs \<Longrightarrow> list_all printedInterval (mergeAdjacent ivs)"
  by (cases ivs) (simp_all add: mergeAdjacent_def printed_mergeFrom)

lemma checkIntegrity_render:
  "list_all printedInterval ivs \<Longrightarrow>
     (checkIntegrity (map render ivs) = Inr ()) \<longleftrightarrow> integrity ivs"
proof (induction ivs)
  case Nil then show ?case by simp
next
  case (Cons cur rest)
  obtain d a b where cur: "cur = (d, a, b)" by (cases cur)
  have p: "d < 7" "a \<le> 1440" "b \<le> 1440" using Cons.prems by (auto simp: cur printedInterval_def)
  show ?case
  proof (cases rest)
    case Nil
    then show ?thesis using p ctm_format_in_day[of b]
      by (auto simp: cur ctm_format format_eq_2400 Let_def split: if_splits)
  next
    case (Cons nxt rest')
    obtain d' a' b' where nxt: "nxt = (d', a', b')" by (cases nxt)
    have q: "d' < 7" "a' \<le> 1440" using Cons.prems Cons by (auto simp: nxt printedInterval_def)
    show ?thesis using p q Cons.IH Cons.prems Cons ctm_format_in_day[of b]
      by (auto simp: cur nxt ctm_format format_eq_2400 days_inj Let_def split: if_splits)
  qed
qed

lemma combineAndCheckIntegrity_render:
  assumes "list_all printedInterval ivs"
  shows "combineAndCheckIntegrity (map render ivs) =
           (if integrity (normalize ivs) then Inr (map render (normalize ivs))
            else Inl (projl (checkIntegrity (map render (normalize ivs)))))"
proof -
  have p: "list_all printedInterval (normalize ivs)"
    using assms by (simp add: normalize_def printed_mergeAdjacent printed_sort)
  have c: "combineAdjacentRanges (map render (sort_key sortKey ivs)) = map render (normalize ivs)"
    using assms by (simp add: normalize_def combineAdjacentRanges_render printed_sort)
  show ?thesis
    using checkIntegrity_render[OF p]
    by (cases "checkIntegrity (map render (normalize ivs))")
       (auto simp: combineAndCheckIntegrity_def sortHours_render[OF assms] c Let_def)
qed

section \<open>Canonical lists are what the pipeline produces and keeps\<close>

lemma mergeFrom_head:
  "\<exists>c tl. mergeFrom cur rest = (fst cur, fst (snd cur), c) # tl"
proof (induction rest arbitrary: cur)
  case Nil then show ?case by (cases cur) simp
next
  case (Cons nxt rest)
  show ?case
  proof (cases "fst cur = fst nxt \<and> \<bar>int (snd (snd cur)) - int (fst (snd nxt))\<bar> \<le> 1")
    case True
    then show ?thesis
      using Cons.IH[of "(fst cur, fst (snd cur), max (snd (snd cur)) (snd (snd nxt)))"] by simp
  next
    case False
    then show ?thesis by (cases cur) auto
  qed
qed

lemma mergeFrom_keep:
  "\<not> (fst cur = fst nxt \<and> \<bar>int (snd (snd cur)) - int (fst (snd nxt))\<bar> \<le> 1) \<Longrightarrow>
     mergeFrom cur (nxt # rest) = cur # mergeFrom nxt rest"
  by auto

lemma mergeFrom_absorb:
  "fst cur = fst nxt \<and> \<bar>int (snd (snd cur)) - int (fst (snd nxt))\<bar> \<le> 1 \<Longrightarrow>
     mergeFrom cur (nxt # rest)
       = mergeFrom (fst cur, fst (snd cur), max (snd (snd cur)) (snd (snd nxt))) rest"
  by auto

lemma mergeFrom_apart: "successively apart (mergeFrom cur rest)"
proof (induction rest arbitrary: cur)
  case Nil then show ?case by simp
next
  case (Cons nxt rest)
  show ?case
  proof (cases "fst cur = fst nxt \<and> \<bar>int (snd (snd cur)) - int (fst (snd nxt))\<bar> \<le> 1")
    case True
    then show ?thesis using Cons.IH by simp
  next
    case False
    obtain c tl where h: "mergeFrom nxt rest = (fst nxt, fst (snd nxt), c) # tl"
      using mergeFrom_head by blast
    have e: "mergeFrom cur (nxt # rest) = cur # mergeFrom nxt rest"
      using False by (rule mergeFrom_keep)
    have "apart cur (fst nxt, fst (snd nxt), c)" using False by (simp add: apart_def)
    then show ?thesis unfolding e using Cons.IH[of nxt] h by simp
  qed
qed

lemma mergeFrom_days:
  "successively (\<lambda>x y. fst x \<le> fst y) (cur # rest) \<Longrightarrow>
     successively (\<lambda>x y. fst x \<le> fst y) (mergeFrom cur rest)"
proof (induction rest arbitrary: cur)
  case Nil then show ?case by simp
next
  case (Cons nxt rest)
  show ?case
  proof (cases "fst cur = fst nxt \<and> \<bar>int (snd (snd cur)) - int (fst (snd nxt))\<bar> \<le> 1")
    case True
    have "successively (\<lambda>x y. fst x \<le> fst y)
            ((fst cur, fst (snd cur), max (snd (snd cur)) (snd (snd nxt))) # rest)"
      using Cons.prems True by (cases rest) auto
    then show ?thesis using True Cons.IH by simp
  next
    case False
    obtain c tl where h: "mergeFrom nxt rest = (fst nxt, fst (snd nxt), c) # tl"
      using mergeFrom_head by blast
    have e: "mergeFrom cur (nxt # rest) = cur # mergeFrom nxt rest"
      using False by (rule mergeFrom_keep)
    have "successively (\<lambda>x y. fst x \<le> fst y) (nxt # rest)" using Cons.prems by simp
    from Cons.IH[OF this] have "successively (\<lambda>x y. fst x \<le> fst y) (mergeFrom nxt rest)" .
    moreover have "fst cur \<le> fst nxt" using Cons.prems by simp
    ultimately show ?thesis unfolding e by (simp add: h)
  qed
qed

lemma sorted_keys_days:
  "list_all printedInterval ivs \<Longrightarrow> sorted (map sortKey ivs) \<Longrightarrow>
     successively (\<lambda>x y. fst x \<le> fst y) ivs"
proof (induction ivs rule: induct_list012)
  case (3 x y zs)
  have "sortKey x \<le> sortKey y" using 3(4) by simp
  moreover have "fst (snd x) \<le> 1440" "fst (snd y) \<le> 1440"
    using 3(3) by (auto simp: printedInterval_def split: prod.splits)
  ultimately have "fst x \<le> fst y" unfolding sortKey_def by (cases "fst x \<le> fst y") (auto simp: not_le Suc_le_eq dest!: mult_le_mono1[of _ _ 1441])
  then show ?case using 3 by simp
qed simp_all

lemma canonical_from_checks:
  "list_all printedInterval ivs \<Longrightarrow> integrity ivs \<Longrightarrow> successively apart ivs \<Longrightarrow>
     successively (\<lambda>x y. fst x \<le> fst y) ivs \<Longrightarrow> canonical ivs"
proof (induction ivs rule: induct_list012)
  case 1 then show ?case by simp
next
  case (2 x)
  then show ?case by (cases x) (auto simp: validInterval_def printedInterval_def)
next
  case (3 x y zs)
  have "canonical (y # zs)" using 3 by simp
  moreover have "validInterval x" using 3(3,4) by (cases x) (auto simp: validInterval_def printedInterval_def)
  moreover have "fst x < fst y \<or> (fst x = fst y \<and> snd (snd x) + 2 \<le> fst (snd y))"
    using 3(4,5,6) by (auto simp: apart_def)
  ultimately show ?case by simp
qed

lemma canonical_normalize:
  assumes "list_all printedInterval ivs" "integrity (normalize ivs)"
  shows "canonical (normalize ivs)"
proof -
  let ?s = "sort_key sortKey ivs"
  have ps: "list_all printedInterval ?s" using assms(1) by (rule printed_sort)
  have "successively (\<lambda>x y. fst x \<le> fst y) ?s"
    using ps by (rule sorted_keys_days) simp
  then have d: "successively (\<lambda>x y. fst x \<le> fst y) (normalize ivs)"
    by (cases ?s) (simp_all add: normalize_def mergeAdjacent_def mergeFrom_days)
  have a: "successively apart (normalize ivs)"
    by (cases ?s) (simp_all add: normalize_def mergeAdjacent_def mergeFrom_apart)
  have p: "list_all printedInterval (normalize ivs)"
    using ps by (simp add: normalize_def printed_mergeAdjacent)
  show ?thesis using canonical_from_checks[OF p assms(2) a d] .
qed

lemma canonical_valid: "canonical ivs \<Longrightarrow> list_all validInterval ivs"
  by (induction ivs rule: canonical.induct) auto

lemma valid_printed: "validInterval iv \<Longrightarrow> printedInterval iv"
  by (auto simp: validInterval_def printedInterval_def split: prod.splits)

lemma canonical_printed: "canonical ivs \<Longrightarrow> list_all printedInterval ivs"
  using canonical_valid valid_printed by (fastforce simp: list_all_iff)

lemma canonical_tail: "canonical (x # xs) \<Longrightarrow> canonical xs"
  by (cases xs) auto

lemma canonical_keys: "canonical ivs \<Longrightarrow> sorted (map sortKey ivs)"
proof (induction ivs rule: canonical.induct)
  case (3 a b rest)
  then have s: "sorted (map sortKey (b # rest))" by simp
  have "sortKey a \<le> sortKey b"
  proof -
    have v: "fst (snd a) \<le> 1440" using 3(2) by (auto simp: validInterval_def split: prod.splits)
    have "fst a < fst b \<or> (fst a = fst b \<and> fst (snd a) \<le> fst (snd b))"
      using 3(2) by (auto simp: validInterval_def split: prod.splits)
    then show ?thesis
    proof
      assume "fst a < fst b"
      then have "(fst a + 1) * 1441 \<le> fst b * 1441" by (intro mult_le_mono1) simp
      then show ?thesis using v by (simp add: sortKey_def)
    next
      assume "fst a = fst b \<and> fst (snd a) \<le> fst (snd b)"
      then show ?thesis by (simp add: sortKey_def)
    qed
  qed
  moreover have "\<forall>k\<in>set (map sortKey rest). sortKey b \<le> k" using s by simp
  ultimately show ?case using s by auto
qed simp_all

lemma canonical_mergeFrom: "canonical (cur # rest) \<Longrightarrow> mergeFrom cur rest = cur # rest"
proof (induction rest arbitrary: cur)
  case Nil then show ?case by simp
next
  case (Cons nxt rest)
  have "\<not> (fst cur = fst nxt \<and> \<bar>int (snd (snd cur)) - int (fst (snd nxt))\<bar> \<le> 1)"
    using Cons.prems by auto
  then have e: "mergeFrom cur (nxt # rest) = cur # mergeFrom nxt rest"
    by (rule mergeFrom_keep)
  have "canonical (nxt # rest)" using Cons.prems by simp
  then show ?case unfolding e using Cons.IH by simp
qed

lemma canonical_integrity: "canonical ivs \<Longrightarrow> integrity ivs"
proof (induction ivs rule: canonical.induct)
  case (2 a) then show ?case by (auto simp: validInterval_def split: prod.splits)
next
  case (3 a b rest)
  then show ?case by (auto simp: validInterval_def split: prod.splits)
qed simp

lemma canonical_normalize_id: "canonical ivs \<Longrightarrow> normalize ivs = ivs"
proof -
  assume c: "canonical ivs"
  have s: "sort_key sortKey ivs = ivs"
    using canonical_keys[OF c] by (rule sort_key_id_if_sorted)
  show ?thesis
  proof (cases ivs)
    case Nil
    then show ?thesis by (simp add: normalize_def mergeAdjacent_def)
  next
    case (Cons a rest)
    then have "mergeFrom a rest = a # rest" using c canonical_mergeFrom by blast
    then show ?thesis unfolding normalize_def s mergeAdjacent_def by (simp add: Cons)
  qed
qed

lemma canonical_fixed:
  assumes "canonical ivs"
  shows "combineAndCheckIntegrity (map render ivs) = Inr (map render ivs)"
  using assms
  by (simp add: combineAndCheckIntegrity_render canonical_printed canonical_normalize_id
      canonical_integrity)

section \<open>Converting printed times\<close>

lemma js_rem_nonneg: "0 \<le> a \<Longrightarrow> 0 < b \<Longrightarrow> js_rem a b = a mod b"
  by (cases "a = 0") (simp_all add: js_rem_def)

lemma js_rem_wrap: "(let r = js_rem a 7 in if r < 0 then r + 7 else r) = a mod 7"
proof (cases "0 \<le> a")
  case True
  then show ?thesis by (simp add: js_rem_nonneg Let_def)
next
  case False
  then have n: "a < 0" by simp
  then have r: "js_rem a 7 = - ((- a) mod 7)" by (simp add: js_rem_def)
  show ?thesis unfolding r Let_def using n by presburger
qed

lemma adjustDayOfWeek_index:
  "d < 7 \<Longrightarrow> adjustDayOfWeek (days ! d) k = days ! nat ((int d + k) mod 7)"
  using js_rem_wrap[of "int d + k"] by (simp add: adjustDayOfWeek_def indexOf_days Let_def)

lemma adjusted_index_bound: "nat ((a::int) mod 7) < 7"
  by simp

text \<open>The wall clock of a printed time on its reference date.\<close>

lemma whole_fmod:
  "js_fmod (Fin (of_nat h)) 24 = Fin (of_nat (h mod 24))"
proof -
  have "(of_nat h :: rat) / 24 = of_nat h / of_nat 24" by simp
  then have "\<lfloor>(of_nat h :: rat) / 24\<rfloor> = int (h div 24)"
    by (simp only: floor_divide_of_nat_eq)
  then have t: "js_trunc (of_nat h / 24) = int (h div 24)" by (simp add: js_trunc_def)
  have e: "24 * (h div 24) + h mod 24 = h" by simp
  have "(of_nat h :: rat) = of_nat (24 * (h div 24) + h mod 24)" by (simp only: e)
  also have "\<dots> = 24 * of_nat (h div 24) + of_nat (h mod 24)"
    by (simp only: of_nat_add of_nat_mult of_nat_numeral)
  finally have "(of_nat h :: rat) - 24 * of_nat (h div 24) = of_nat (h mod 24)" by simp
  then show ?thesis by (simp add: js_fmod_def t)
qed

lemma whole_toInteger: "toInteger (Fin (of_nat k)) = Some (int k)"
  by (simp add: toInteger_def js_trunc_def)

lemma clock_of_format:
  assumes "x \<le> 1440"
  shows "int (x div 60 mod 24) * 60 + int (x mod 60) = int (x mod 1440)"
proof -
  have "x mod (60 * 24) = 60 * (x div 60 mod 24) + x mod 60" by (rule mod_mult2_eq)
  then have "(x div 60) mod 24 * 60 + x mod 60 = x mod 1440" by simp
  then have "int ((x div 60) mod 24 * 60 + x mod 60) = int (x mod 1440)" by simp
  then show ?thesis by simp
qed

lemma convertTime_format:
  assumes "x \<le> 1440" "d < 7"
  shows "convertTimeWithDayChange env (formatHHmm x) (days ! d) f g =
           (case setHoursClock env (referenceDate env (int d) * 1440 + int (x mod 1440)) of
              None \<Rightarrow> Inl InvalidTimeValue
            | Some w \<Rightarrow>
                (case zonedClock env f g w of
                   None \<Rightarrow> Inl InvalidTimeValue
                 | Some w' \<Rightarrow>
                     Inr (formatHHmm (nat (w' mod 1440)),
                          dayOfMonth (w' div 1440) - dayOfMonth (w div 1440)
                            + (if x = 1440 then 1 else 0))))"
proof -
  have c: "referenceDate env (int d) * 1440 + int (x div 60 mod 24) * 60 + int (x mod 60)
             = referenceDate env (int d) * 1440 + int (x mod 1440)"
    using clock_of_format[OF assms(1)] by simp
  show ?thesis
    using assms
    by (simp add: convertTimeWithDayChange_def dayNumber_of_index hoursOf_format minutesOf_format
        whole_fmod whole_toInteger c Let_def format_eq_2400 split: option.splits)
qed

lemma convertTime_success:
  assumes "convertTimeWithDayChange env t day f g = Inr (t', k)"
  shows "(\<exists>x<1440. t' = formatHHmm x) \<and> day \<in> set days"
proof -
  obtain n where n: "convertDayStringToNumber day = Inr n"
    using assms by (cases "convertDayStringToNumber day") (auto simp: convertTimeWithDayChange_def)
  then have d: "day \<in> set days" using dayNumber_valid_iff by blast
  have "\<And>z::int. nat (z mod 1440) < 1440" by simp
  then show ?thesis using assms n d
    by (auto simp: convertTimeWithDayChange_def Let_def split: option.splits)
qed

lemma render_record:
  "\<lparr>atType = ''OpeningHoursSpecification'', dayOfWeek = days ! d,
    opens = formatHHmm a, closes = formatHHmm b\<rparr> = render (d, a, b)"
  by (simp add: render_def)

lemma convertEntry_success:
  assumes "convertAndSplitEntry env sp f g = Inr out"
  shows "\<exists>ivs. out = map render ivs \<and> list_all printedInterval ivs"
proof -
  obtain t1 k1 where c1: "convertTimeWithDayChange env (opens sp) (dayOfWeek sp) f g = Inr (t1, k1)"
    using assms by (cases "convertTimeWithDayChange env (opens sp) (dayOfWeek sp) f g")
      (auto simp: convertAndSplitEntry_def)
  obtain t2 k2 where c2: "convertTimeWithDayChange env (closes sp) (dayOfWeek sp) f g = Inr (t2, k2)"
    using assms c1 by (cases "convertTimeWithDayChange env (closes sp) (dayOfWeek sp) f g")
      (auto simp: convertAndSplitEntry_def)
  obtain x1 where x1: "x1 < 1440" "t1 = formatHHmm x1" using convertTime_success[OF c1] by blast
  obtain x2 where x2: "x2 < 1440" "t2 = formatHHmm x2" using convertTime_success[OF c2] by blast
  obtain d where d: "d < 7" "dayOfWeek sp = days ! d"
    using convertTime_success[OF c1] in_days_index by blast
  define e1 where "e1 = nat ((int d + k1) mod 7)"
  define e2 where "e2 = nat ((int d + k2) mod 7)"
  have e: "e1 < 7" "e2 < 7" by (simp_all add: e1_def e2_def)
  have a1: "adjustDayOfWeek (dayOfWeek sp) k1 = days ! e1"
    and a2: "adjustDayOfWeek (dayOfWeek sp) k2 = days ! e2"
    using d by (simp_all add: adjustDayOfWeek_index e1_def e2_def)
  have z: "''24:00'' = formatHHmm 1440" "''00:00'' = formatHHmm 0"
    by (simp_all add: format_2400 format_0000)
  have out: "out = map render [(e1, x1, x2)] \<or> out = map render [(e1, x1, 1440), (e2, 0, x2)]
      \<or> out = map render [] \<or> out = map render [(e2, 0, x2)] \<or> out = map render [(e1, x1, 1440)]"
    using assms e
    by (auto simp add: convertAndSplitEntry_def c1 c2 a1 a2 x1(2) x2(2) z Let_def render_record
        days_inj split: if_splits)
  have "list_all printedInterval [(e1, x1, x2)]" "list_all printedInterval [(e1, x1, 1440), (e2, 0, x2)]"
     "list_all printedInterval []" "list_all printedInterval [(e2, 0, x2)]"
     "list_all printedInterval [(e1, x1, 1440)]"
    using e x1 x2 by (simp_all add: printedInterval_def)
  then show ?thesis using out by blast
qed

lemma convertAll_success:
  assumes "flatMapE (\<lambda>sp. convertAndSplitEntry env sp f g) ps = Inr out"
  shows "\<exists>ivs. out = map render ivs \<and> list_all printedInterval ivs"
  using assms
proof (induction ps arbitrary: out)
  case Nil
  then show ?case by simp
next
  case (Cons p ps)
  obtain o1 where o1: "convertAndSplitEntry env p f g = Inr o1"
    using Cons.prems by (cases "convertAndSplitEntry env p f g") auto
  obtain o2 where o2: "flatMapE (\<lambda>sp. convertAndSplitEntry env sp f g) ps = Inr o2"
    using Cons.prems o1 by (cases "flatMapE (\<lambda>sp. convertAndSplitEntry env sp f g) ps") auto
  have out: "out = o1 @ o2" using Cons.prems o1 o2 by simp
  obtain i1 where i1: "o1 = map render i1" "list_all printedInterval i1"
    using convertEntry_success[OF o1] by blast
  obtain i2 where i2: "o2 = map render i2" "list_all printedInterval i2"
    using Cons.IH[OF o2] by blast
  have "out = map render (i1 @ i2) \<and> list_all printedInterval (i1 @ i2)"
    using out i1 i2 by simp
  then show ?case by blast
qed

lemma clock_mod: "m < 1440 \<Longrightarrow> (k * 1440 + int m) mod 1440 = int m"
  by simp

lemma clock_div: "m < 1440 \<Longrightarrow> (k * 1440 + int m) div 1440 = k"
  by simp

lemma steady_clock:
  assumes "steadyZone env z" "d < 7" "m < 1440"
  shows "setHoursClock env (referenceDate env (int d) * 1440 + int m)
           = Some (referenceDate env (int d) * 1440 + int m)"
    and "zonedClock env z z (referenceDate env (int d) * 1440 + int m)
           = Some (referenceDate env (int d) * 1440 + int m)"
proof -
  have "int d \<in> {0..6}" "int m \<in> {0..<1440}" using assms(2,3) by simp_all
  then have "setHoursClock env (referenceDate env (int d) * 1440 + int m)
           = Some (referenceDate env (int d) * 1440 + int m)
        \<and> zonedClock env z z (referenceDate env (int d) * 1440 + int m)
           = Some (referenceDate env (int d) * 1440 + int m)"
    using assms(1) unfolding steadyZone_def by blast
  then show "setHoursClock env (referenceDate env (int d) * 1440 + int m)
           = Some (referenceDate env (int d) * 1440 + int m)"
    and "zonedClock env z z (referenceDate env (int d) * 1440 + int m)
           = Some (referenceDate env (int d) * 1440 + int m)" by simp_all
qed

lemma convertTime_same_zone:
  assumes "x \<le> 1440" "d < 7" "steadyZone env z"
  shows "convertTimeWithDayChange env (formatHHmm x) (days ! d) z z =
           Inr (formatHHmm (x mod 1440), if x = 1440 then 1 else 0)"
proof -
  have m: "x mod 1440 < 1440" by simp
  show ?thesis
    unfolding convertTime_format[OF assms(1,2)]
    by (simp only: steady_clock[OF assms(3,2) m] option.case clock_mod[OF m] nat_int
        diff_self add_0)
qed

lemma convertEntry_same_zone:
  assumes "validInterval iv" "steadyZone env z"
  shows "convertAndSplitEntry env (render iv) z z = Inr [render iv]"
proof -
  obtain d a b where iv: "iv = (d, a, b)" by (cases iv)
  have v: "d < 7" "a < b" "b \<le> 1440" using assms(1) by (auto simp: iv validInterval_def)
  have a: "a < 1440" "a \<le> 1440" using v by simp_all
  have c1: "convertTimeWithDayChange env (formatHHmm a) (days ! d) z z = Inr (formatHHmm a, 0)"
    using a v(1) assms(2) by (simp add: convertTime_same_zone)
  have ad: "adjustDayOfWeek (days ! d) 0 = days ! d"
    using v(1) by (simp add: adjustDayOfWeek_index)
  show ?thesis
  proof (cases "b = 1440")
    case False
    then have b: "b < 1440" using v by simp
    have c2: "convertTimeWithDayChange env (formatHHmm b) (days ! d) z z = Inr (formatHHmm b, 0)"
      using b v(1) assms(2) by (simp add: convertTime_same_zone)
    show ?thesis
      by (simp add: convertAndSplitEntry_def iv c1 c2 render_def ad)
  next
    case True
    have c2: "convertTimeWithDayChange env ''24:00'' (days ! d) z z = Inr (''00:00'', 1)"
      using convertTime_same_zone[of 1440 d env z] v(1) assms(2)
      by (simp add: format_2400 format_0000)
    have nd: "adjustDayOfWeek (days ! d) 1 \<noteq> adjustDayOfWeek (days ! d) 0"
    proof -
      have "nat ((int d + 1) mod 7) \<noteq> nat (int d mod 7)" using v(1) by (simp add: nat_eq_iff) presburger
      then show ?thesis using v(1) by (simp add: adjustDayOfWeek_index days_inj)
    qed
    have n24: "formatHHmm a \<noteq> ''24:00''" using a by (simp add: format_eq_2400)
    show ?thesis using nd n24
      by (simp add: convertAndSplitEntry_def iv c1 c2 render_def ad format_0000 True format_2400)
  qed
qed

lemma convertAll_same_zone:
  assumes "list_all validInterval ivs" "steadyZone env z"
  shows "flatMapE (\<lambda>sp. convertAndSplitEntry env sp z z) (map render ivs) = Inr (map render ivs)"
  using assms by (induction ivs) (simp_all add: convertEntry_same_zone)

section \<open>Every state of a service is canonical\<close>

lemma pipeline_canonical:
  assumes "list_all printedInterval ivs" "combineAndCheckIntegrity (map render ivs) = Inr out"
  shows "out = map render (normalize ivs) \<and> canonical (normalize ivs)"
proof -
  have i: "integrity (normalize ivs)"
    using assms by (auto simp: combineAndCheckIntegrity_render split: if_splits)
  then show ?thesis
    using assms canonical_normalize[OF assms(1) i] by (simp add: combineAndCheckIntegrity_render)
qed

lemma normalize_empty: "normalize ivs = [] \<longleftrightarrow> ivs = []"
proof
  assume n: "normalize ivs = []"
  show "ivs = []"
  proof (rule ccontr)
    assume "ivs \<noteq> []"
    then have "sort_key sortKey ivs \<noteq> []" by (metis length_sort length_0_conv)
    then obtain a r where ar: "sort_key sortKey ivs = a # r" by (cases "sort_key sortKey ivs") auto
    then have "normalize ivs = mergeFrom a r" by (simp add: normalize_def mergeAdjacent_def)
    then show False using n mergeFrom_head[of a r] by auto
  qed
qed (simp add: normalize_def mergeAdjacent_def)

lemma setOpeningHours_inv:
  assumes "fst (setOpeningHours env hours tz s) = Inr ()"
  shows "stateInv (snd (setOpeningHours env hours tz s))"
proof -
  let ?z = "case tz of None \<Rightarrow> userTimezone s | Some z \<Rightarrow> z"
  obtain ps where ps: "preprocessOpeningHours hours = Inr ps"
    using assms by (cases "preprocessOpeningHours hours") (auto simp: setOpeningHours_def)
  obtain conv where conv: "flatMapE (\<lambda>sp. convertAndSplitEntry env sp ?z (userTimezone s)) ps = Inr conv"
    using assms ps
    by (cases "flatMapE (\<lambda>sp. convertAndSplitEntry env sp ?z (userTimezone s)) ps")
       (auto simp: setOpeningHours_def)
  obtain out where out: "combineAndCheckIntegrity conv = Inr out"
    using assms ps conv by (cases "combineAndCheckIntegrity conv") (auto simp: setOpeningHours_def)
  have r: "setOpeningHours env hours tz s = generateOpeningHoursInstance env (s\<lparr>openingHours := out\<rparr>)"
    using ps conv out by (simp add: setOpeningHours_def)
  obtain ivs where ivs: "conv = map render ivs" "list_all printedInterval ivs"
    using convertAll_success[OF conv] by blast
  have c: "out = map render (normalize ivs)" "canonical (normalize ivs)"
    using pipeline_canonical[OF ivs(2)] out ivs(1) by auto
  show ?thesis unfolding r stateInv_def using c by (auto simp: generate_fields)
qed

lemma addOpeningHoursBatch_inv:
  assumes "stateInv s" "fst (addOpeningHoursBatch env hours tz s) = Inr ()"
  shows "stateInv (snd (addOpeningHoursBatch env hours tz s))"
proof -
  let ?z = "case tz of None \<Rightarrow> userTimezone s | Some z \<Rightarrow> z"
  obtain ps where ps: "preprocessOpeningHours hours = Inr ps"
    using assms(2) by (cases "preprocessOpeningHours hours") (auto simp: addOpeningHoursBatch_def)
  obtain conv where conv: "flatMapE (\<lambda>sp. convertAndSplitEntry env sp ?z (userTimezone s)) ps = Inr conv"
    using assms(2) ps
    by (cases "flatMapE (\<lambda>sp. convertAndSplitEntry env sp ?z (userTimezone s)) ps")
       (auto simp: addOpeningHoursBatch_def)
  obtain out where out: "combineAndCheckIntegrity (openingHours s @ conv) = Inr out"
    using assms(2) ps conv by (cases "combineAndCheckIntegrity (openingHours s @ conv)")
      (auto simp: addOpeningHoursBatch_def)
  have r: "addOpeningHoursBatch env hours tz s = generateOpeningHoursInstance env (s\<lparr>openingHours := out\<rparr>)"
    using ps conv out by (simp add: addOpeningHoursBatch_def)
  obtain old where old: "openingHours s = map render old" "canonical old"
    using assms(1) by (auto simp: stateInv_def)
  obtain ivs where ivs: "conv = map render ivs" "list_all printedInterval ivs"
    using convertAll_success[OF conv] by blast
  have p: "list_all printedInterval (old @ ivs)" using canonical_printed[OF old(2)] ivs(2) by simp
  have c: "out = map render (normalize (old @ ivs))" "canonical (normalize (old @ ivs))"
    using pipeline_canonical[OF p] out ivs(1) old(1) by auto
  show ?thesis unfolding r stateInv_def using c by (auto simp: generate_fields)
qed

lemma mutate_inv: "stateInv s \<Longrightarrow> stateInv (snd (mutate env m s))"
proof (cases "fst (mutate env m s)")
  case (Inl e)
  assume "stateInv s"
  moreover have "snd (mutate env m s) = s" using Inl
    by (cases m) (simp_all add: setOpeningHours_failure addOpeningHoursBatch_failure
      removeOpeningHoursForDay_failure addOpeningHour_def)
  ultimately show ?thesis by simp
next
  case (Inr u)
  assume inv: "stateInv s"
  show ?thesis
  proof (cases m)
    case (SetOpeningHours hours tz)
    then show ?thesis using Inr setOpeningHours_inv by simp
  next
    case (AddOpeningHour day a b tz)
    then show ?thesis using Inr inv addOpeningHoursBatch_inv by (simp add: addOpeningHour_def)
  next
    case (AddOpeningHoursBatch hours tz)
    then show ?thesis using Inr inv addOpeningHoursBatch_inv by simp
  next
    case (RemoveOpeningHoursForDay day tz)
    then have "\<exists>hours z. mutate env m s = setOpeningHours env hours z s"
      using Inr
      by (auto simp: removeOpeningHoursForDay_def Let_def split: sum.splits if_splits)
    then show ?thesis using Inr setOpeningHours_inv by auto
  qed
qed

lemma emptyService_inv: "stateInv (emptyService z)"
  by (auto simp: stateInv_def emptyService_def intro: exI[of _ "[]"])

lemma foldl_inv:
  "stateInv s \<Longrightarrow> stateInv (foldl (\<lambda>s m. snd (mutate env m s)) s calls)"
  by (induction calls arbitrary: s) (simp_all add: mutate_inv)

lemma afterCalls_inv: "stateInv (afterCalls env z calls)"
  unfolding afterCalls_def by (rule foldl_inv) (rule emptyService_inv)

lemma afterCalls_zone: "userTimezone (afterCalls env z calls) = z"
proof -
  have m: "\<And>m s. userTimezone (snd (mutate env m s)) = userTimezone s"
  proof -
    fix m s
    have set: "\<And>hours tz. userTimezone (snd (setOpeningHours env hours tz s)) = userTimezone s"
      by (auto simp: setOpeningHours_def Let_def generate_fields split: sum.splits)
    have add: "\<And>hours tz. userTimezone (snd (addOpeningHoursBatch env hours tz s)) = userTimezone s"
      by (auto simp: addOpeningHoursBatch_def Let_def generate_fields split: sum.splits)
    have rem: "\<And>day tz. userTimezone (snd (removeOpeningHoursForDay env day tz s)) = userTimezone s"
      by (auto simp: removeOpeningHoursForDay_def Let_def set split: sum.splits)
    show "userTimezone (snd (mutate env m s)) = userTimezone s"
      by (cases m) (simp_all add: set add rem addOpeningHour_def)
  qed
  have "\<And>s. userTimezone (foldl (\<lambda>s m. snd (mutate env m s)) s calls) = userTimezone s"
    by (induction calls) (simp_all add: m)
  then show ?thesis by (simp add: afterCalls_def emptyService_def)
qed

section \<open>The stored schedule is well formed\<close>

lemma dayNumber_render: "d < 7 \<Longrightarrow> dayNumber (render (d, a, b)) = int d + 1"
  by (simp add: dayNumber_def dayNumber_of_index)

lemma ordered_render:
  assumes "validInterval x" "validInterval y" "sortKey x \<le> sortKey y"
  shows "orderedByDayThenOpens (render x) (render y)"
proof -
  obtain d a b where x: "x = (d, a, b)" by (cases x)
  obtain d' a' b' where y: "y = (d', a', b')" by (cases y)
  have v: "d < 7" "a < 1440" "d' < 7" "a' < 1440"
    using assms(1,2) by (auto simp: x y validInterval_def)
  have "d < d' \<or> (d = d' \<and> a \<le> a')"
  proof (rule ccontr)
    assume "\<not> ?thesis"
    then have "d' < d \<or> (d = d' \<and> a' < a)" by auto
    then show False
    proof
      assume "d' < d"
      then have "(d' + 1) * 1441 \<le> d * 1441" by (intro mult_le_mono1) simp
      then show False using assms(3) v by (simp add: x y sortKey_def)
    next
      assume "d = d' \<and> a' < a"
      then show False using assms(3) by (simp add: x y sortKey_def)
    qed
  qed
  then show ?thesis using v
    by (auto simp: orderedByDayThenOpens_def x y dayNumber_render ctm_format)
qed

lemma canonical_wellFormed:
  assumes "canonical ivs"
  shows "wellFormedSchedule (map render ivs)"
proof -
  have v: "list_all validInterval ivs" using assms by (rule canonical_valid)
  have "sorted_wrt (\<lambda>x y. sortKey x \<le> sortKey y) ivs"
    using canonical_keys[OF assms] by (simp add: sorted_map)
  then have "sorted_wrt (\<lambda>x y. orderedByDayThenOpens (render x) (render y)) ivs"
    using v by (auto simp: list_all_iff intro: sorted_wrt_mono_rel[rotated] ordered_render)
  then have s: "sorted_wrt orderedByDayThenOpens (map render ivs)"
    by (simp add: sorted_wrt_map)
  have p: "list_all properRange (map render ivs)"
  proof -
    have "\<And>iv. validInterval iv \<Longrightarrow> properRange (render iv)"
    proof -
      fix iv assume "validInterval iv"
      then show "properRange (render iv)"
        by (cases iv) (auto simp: validInterval_def properRange_def ctm_format day_in_days
            format_eq_2400)
    qed
    then show ?thesis using v by (auto simp: list_all_iff)
  qed
  have c: "successively closesBeforeNextOpens (map render ivs)"
    using assms
  proof (induction ivs rule: canonical.induct)
    case (3 x y rest)
    obtain d a b where x: "x = (d, a, b)" by (cases x)
    obtain d' a' b' where y: "y = (d', a', b')" by (cases y)
    have "validInterval x" "validInterval y" using 3(2) by (cases rest; simp)+
    then have v: "d < 7" "b \<le> 1440" "d' < 7" "a' \<le> 1440" by (auto simp: x y validInterval_def)
    have "closesBeforeNextOpens (render x) (render y)"
      using 3(2) v by (auto simp: closesBeforeNextOpens_def x y days_inj ctm_format)
    then show ?case using 3 by simp
  qed simp_all
  show ?thesis using s p c by (simp add: wellFormedSchedule_def)
qed

text \<open>
  C3. In every state a service reaches from its construction through mutating calls, so
  in particular after every successful one, the stored schedule is ordered by weekday
  (Monday = 1 .. Sunday = 7) and then by opening time; every record names one of the
  seven weekdays, does not open at \<open>24:00\<close>, closes strictly after it opens and at
  1440 minutes at the latest; and each record closes no later than the next record of
  the same weekday opens.
\<close>

theorem stored_schedule_is_well_formed:
  "wellFormedSchedule (openingHours (afterCalls env z calls))"
proof -
  obtain ivs where "openingHours (afterCalls env z calls) = map render ivs" "canonical ivs"
    using afterCalls_inv[of env z calls] by (auto simp: stateInv_def)
  then show ?thesis using canonical_wellFormed by simp
qed

theorem stored_schedule_is_well_formed_witness:
  "openingHours (afterCalls demoEnv ''Asia/Tokyo''
       [AddOpeningHour ''Monday'' ''09:00'' ''18:00'' (Some ''UTC''),
        AddOpeningHour ''Monday'' ''14:00'' ''20:00'' (Some ''America/New_York''),
        SetOpeningHours [entry ''Sunday'' ''20:00'' ''24:00'', entry ''Friday'' ''08:00'' ''09:30''] (Some ''UTC'')])
     = [stored ''Monday'' ''05:00'' ''09:00'', stored ''Friday'' ''17:00'' ''18:30'']
   \<and> wellFormedSchedule
        [stored ''Monday'' ''05:00'' ''09:00'', stored ''Friday'' ''17:00'' ''18:30'']"
proof -
  have e: "openingHours (afterCalls demoEnv ''Asia/Tokyo''
       [AddOpeningHour ''Monday'' ''09:00'' ''18:00'' (Some ''UTC''),
        AddOpeningHour ''Monday'' ''14:00'' ''20:00'' (Some ''America/New_York''),
        SetOpeningHours [entry ''Sunday'' ''20:00'' ''24:00'', entry ''Friday'' ''08:00'' ''09:30''] (Some ''UTC'')])
     = [stored ''Monday'' ''05:00'' ''09:00'', stored ''Friday'' ''17:00'' ''18:30'']"
    by code_simp
  show ?thesis
    using stored_schedule_is_well_formed[of demoEnv "''Asia/Tokyo''"
       "[AddOpeningHour ''Monday'' ''09:00'' ''18:00'' (Some ''UTC''),
        AddOpeningHour ''Monday'' ''14:00'' ''20:00'' (Some ''America/New_York''),
        SetOpeningHours [entry ''Sunday'' ''20:00'' ''24:00'', entry ''Friday'' ''08:00'' ''09:30''] (Some ''UTC'')]"]
    unfolding e by simp
qed

section \<open>The pipeline on its own output\<close>

lemma startsWith_days: "d < 7 \<Longrightarrow> \<not> startsWith (days ! d) ''https://schema.org/''"
  using day_cases[of d] by (auto simp: days_def startsWith_def)

lemma normalizeDayOfWeek_days: "d < 7 \<Longrightarrow> normalizeDayOfWeek (days ! d) = days ! d"
  by (simp add: normalizeDayOfWeek_def startsWith_days)

lemma normalize_toRaw_render:
  "list_all printedInterval ivs \<Longrightarrow>
     normalizeAndSplitDays (map toRaw (map render ivs)) = map render ivs"
proof (induction ivs)
  case Nil then show ?case by (simp add: normalizeAndSplitDays_def)
next
  case (Cons iv ivs)
  obtain d a b where iv: "iv = (d, a, b)" by (cases iv)
  have "d < 7" using Cons.prems by (simp add: iv printedInterval_def)
  then have "normalizeAndSplitDays [toRaw (render iv)] = [render iv]"
    by (simp add: normalizeAndSplitDays_def toRaw_def iv render_def normalizeDayOfWeek_days)
  moreover have "normalizeAndSplitDays (map toRaw (map render (iv # ivs)))
      = normalizeAndSplitDays [toRaw (render iv)] @ normalizeAndSplitDays (map toRaw (map render ivs))"
    by (simp add: normalizeAndSplitDays_def)
  ultimately show ?case using Cons by simp
qed

lemma flatMapE_pass:
  "\<forall>x\<in>set xs. \<not> P x \<Longrightarrow> flatMapE (\<lambda>x. if P x then Inl (g x) else Inr [x]) xs = Inr xs"
  by (induction xs) auto

lemma preprocess_canonical:
  assumes "list_all validInterval ivs"
  shows "preprocessOpeningHours (map toRaw (map render ivs)) = Inr (map render ivs)"
proof -
  have p: "list_all printedInterval ivs" using assms valid_printed by (auto simp: list_all_iff)
  have "\<forall>sp\<in>set (map render ivs). \<not> (timeIsBefore (closes sp) (opens sp) \<or> closes sp = opens sp)"
    using assms
    by (auto simp: list_all_iff validInterval_def timeIsBefore_format format_inj)
  then show ?thesis unfolding preprocessOpeningHours_def normalize_toRaw_render[OF p]
    by (rule flatMapE_pass)
qed

lemma export_same_zone:
  assumes "stateInv s" "steadyZone env (userTimezone s)"
  shows "fst (exportOpeningHours env None s) = Inr (openingHours s)"
    and "fst (exportOpeningHours env (Some (userTimezone s)) s) = Inr (openingHours s)"
    and "fst (setOpeningHours env (map toRaw (openingHours s)) None s) = Inr ()"
    and "openingHours (snd (setOpeningHours env (map toRaw (openingHours s)) None s)) = openingHours s"
proof -
  obtain ivs where ivs: "openingHours s = map render ivs" "canonical ivs"
    using assms(1) by (auto simp: stateInv_def)
  have v: "list_all validInterval ivs" using ivs(2) by (rule canonical_valid)
  have conv: "flatMapE (\<lambda>sp. convertAndSplitEntry env sp (userTimezone s) (userTimezone s))
                 (map render ivs) = Inr (map render ivs)"
    using v assms(2) by (rule convertAll_same_zone)
  show "fst (exportOpeningHours env None s) = Inr (openingHours s)"
    and "fst (exportOpeningHours env (Some (userTimezone s)) s) = Inr (openingHours s)"
    using conv by (simp_all add: exportOpeningHours_def ivs(1) canonical_fixed[OF ivs(2)])
  have r: "setOpeningHours env (map toRaw (openingHours s)) None s
      = generateOpeningHoursInstance env (s\<lparr>openingHours := map render ivs\<rparr>)"
    using conv by (simp add: setOpeningHours_def ivs(1) preprocess_canonical[OF v]
        canonical_fixed[OF ivs(2)] del: map_map)
  show "fst (setOpeningHours env (map toRaw (openingHours s)) None s) = Inr ()"
    unfolding r by (rule generate_succeeds)
  show "openingHours (snd (setOpeningHours env (map toRaw (openingHours s)) None s)) = openingHours s"
    unfolding r by (simp add: generate_fields ivs(1))
qed

lemma steady_fixed: "zones z = Some p \<Longrightarrow> steadyZone (fixedEnv zones sunday) z"
  by (simp add: steadyZone_def fixedEnv_def)

text \<open>
  C5 as first written fails when the clocks of the internal zone change in the reference
  week. A service in America/New_York holds Monday 02:30-05:00, set in a week without a
  clock change. In the week whose reference Sunday is 2026-03-08 the wall clock 02:30 of
  that date does not exist: \<open>setHours(2, 30, 0, 0)\<close> gives 03:30, and the export in the
  internal zone returns Monday 03:30-05:00.
\<close>

theorem clock_change_export_counterexample:
  "openingHours (afterCalls winterWeek ''America/New_York''
       [SetOpeningHours [entry ''Monday'' ''02:30'' ''05:00''] None])
     = [stored ''Monday'' ''02:30'' ''05:00'']
   \<and> fst (exportOpeningHours newYorkSpringWeek None
           (afterCalls winterWeek ''America/New_York''
              [SetOpeningHours [entry ''Monday'' ''02:30'' ''05:00''] None]))
     = Inr [stored ''Monday'' ''03:30'' ''05:00'']"
  by code_simp

text \<open>
  C5 (amended). Take any state a service with internal zone \<open>z\<close> reaches (in whatever
  weeks the calls were made), and a week in which \<open>z\<close> keeps its clocks. Running the
  pipeline in that week on the stored schedule with the internal zone as source and
  destination gives the stored schedule again: \<open>exportOpeningHours\<close> without a zone or
  with the internal zone returns exactly the stored list, and \<open>setOpeningHours\<close> of the
  stored list in the internal zone succeeds and stores the same list (nothing is split,
  merged, reordered or changed).
\<close>

theorem normalizing_twice_changes_nothing:
  assumes "steadyZone env z"
  shows "fst (exportOpeningHours env None (afterCalls env' z calls))
     = Inr (openingHours (afterCalls env' z calls))
   \<and> fst (exportOpeningHours env (Some z) (afterCalls env' z calls))
     = Inr (openingHours (afterCalls env' z calls))
   \<and> fst (setOpeningHours env (map toRaw (openingHours (afterCalls env' z calls))) None
            (afterCalls env' z calls)) = Inr ()
   \<and> openingHours (snd (setOpeningHours env
          (map toRaw (openingHours (afterCalls env' z calls))) None (afterCalls env' z calls)))
     = openingHours (afterCalls env' z calls)"
proof -
  have s: "steadyZone env (userTimezone (afterCalls env' z calls))"
    using assms by (simp add: afterCalls_zone)
  show ?thesis
    using export_same_zone[OF afterCalls_inv[of env' z calls] s]
    by (simp add: afterCalls_zone)
qed

theorem normalizing_twice_changes_nothing_witness:
  "steadyZone demoEnv ''America/New_York''
   \<and> fst (exportOpeningHours demoEnv None
           (afterCalls winterWeek ''America/New_York''
              [SetOpeningHours [entry ''Monday'' ''02:30'' ''05:00''] None,
               AddOpeningHour ''Sunday'' ''20:00'' ''24:00'' None]))
     = Inr [stored ''Monday'' ''02:30'' ''05:00'', stored ''Sunday'' ''20:00'' ''24:00'']"
proof -
  have s: "steadyZone demoEnv ''America/New_York''"
    unfolding demoEnv_def by (rule steady_fixed) (simp add: demoZones_def)
  have e: "openingHours (afterCalls winterWeek ''America/New_York''
              [SetOpeningHours [entry ''Monday'' ''02:30'' ''05:00''] None,
               AddOpeningHour ''Sunday'' ''20:00'' ''24:00'' None])
     = [stored ''Monday'' ''02:30'' ''05:00'', stored ''Sunday'' ''20:00'' ''24:00'']"
    by code_simp
  from normalizing_twice_changes_nothing[OF s, of winterWeek
      "[SetOpeningHours [entry ''Monday'' ''02:30'' ''05:00''] None,
        AddOpeningHour ''Sunday'' ''20:00'' ''24:00'' None]"]
  have "fst (exportOpeningHours demoEnv None
           (afterCalls winterWeek ''America/New_York''
              [SetOpeningHours [entry ''Monday'' ''02:30'' ''05:00''] None,
               AddOpeningHour ''Sunday'' ''20:00'' ''24:00'' None]))
     = Inr [stored ''Monday'' ''02:30'' ''05:00'', stored ''Sunday'' ''20:00'' ''24:00'']"
    unfolding e by (rule conjunct1)
  with s show ?thesis by (rule conjI)
qed

section \<open>Closing at midnight\<close>

text \<open>
  C6 as first written fails when the clocks of the internal zone skip midnight on a
  reference date. A service in America/Havana holds Monday 10:00-24:00. In the week
  whose reference Sunday is 2026-03-08, on which the Havana clocks go from 00:00 to
  01:00, \<open>setHours(0, 0, 0, 0)\<close> for the closing time gives 01:00; the closing time
  is converted to 01:00 with a day change of 1, and the export into the internal zone
  returns Monday 10:00-24:00 followed by a second piece, Tuesday 00:00-01:00.
\<close>

theorem skipped_midnight_export_counterexample:
  "openingHours (afterCalls winterWeek ''America/Havana''
       [SetOpeningHours [entry ''Monday'' ''10:00'' ''24:00''] (Some ''America/Havana'')])
     = [stored ''Monday'' ''10:00'' ''24:00'']
   \<and> fst (exportOpeningHours havanaSpringWeek (Some ''America/Havana'')
           (afterCalls winterWeek ''America/Havana''
              [SetOpeningHours [entry ''Monday'' ''10:00'' ''24:00''] (Some ''America/Havana'')]))
     = Inr [stored ''Monday'' ''10:00'' ''24:00'', stored ''Tuesday'' ''00:00'' ''01:00'']"
  by code_simp

text \<open>
  C6 (amended). For every weekday and every opening time before 24:00, in a service with
  internal zone \<open>z\<close> and in a week in which \<open>z\<close> keeps its clocks: converting the
  interval that closes at \<open>24:00\<close> from the internal zone to itself returns that one
  interval, with \<open>24:00\<close> on the same weekday (no second piece on the next day);
  setting it in the internal zone stores exactly it, and exporting into the internal
  zone returns exactly it; and whenever such an interval is part of the stored schedule,
  the export into the internal zone contains it.
\<close>

theorem closing_at_midnight_survives_export:
  assumes "d < 7" and "t < 1440" and "steadyZone env z"
  shows "convertAndSplitEntry env (stored (days ! d) (formatHHmm t) ''24:00'') z z
           = Inr [stored (days ! d) (formatHHmm t) ''24:00'']
       \<and> fst (setOpeningHours env [entry (days ! d) (formatHHmm t) ''24:00''] (Some z)
                (afterCalls env' z calls)) = Inr ()
       \<and> openingHours (snd (setOpeningHours env [entry (days ! d) (formatHHmm t) ''24:00'']
                (Some z) (afterCalls env' z calls)))
           = [stored (days ! d) (formatHHmm t) ''24:00'']
       \<and> fst (exportOpeningHours env (Some z)
                (snd (setOpeningHours env [entry (days ! d) (formatHHmm t) ''24:00''] (Some z)
                       (afterCalls env' z calls))))
           = Inr [stored (days ! d) (formatHHmm t) ''24:00'']
       \<and> (stored (days ! d) (formatHHmm t) ''24:00'' \<in> set (openingHours (afterCalls env' z calls))
            \<longrightarrow> (\<exists>hs. fst (exportOpeningHours env (Some z) (afterCalls env' z calls)) = Inr hs
                      \<and> stored (days ! d) (formatHHmm t) ''24:00'' \<in> set hs))"
proof -
  let ?s = "afterCalls env' z calls"
  let ?e = "stored (days ! d) (formatHHmm t) ''24:00''"
  let ?set = "setOpeningHours env [entry (days ! d) (formatHHmm t) ''24:00''] (Some z) ?s"
  have e: "?e = render (d, t, 1440)" by (simp add: stored_def render_def format_2400)
  have raw: "[entry (days ! d) (formatHHmm t) ''24:00''] = map toRaw (map render [(d, t, 1440)])"
    by (simp add: entry_def toRaw_def render_def format_2400)
  have v: "list_all validInterval [(d, t, 1440)]" using assms(1,2) by (simp add: validInterval_def)
  have c: "canonical [(d, t, 1440)]" using v by simp
  have z: "userTimezone ?s = z" by (rule afterCalls_zone)
  have conv: "convertAndSplitEntry env ?e z z = Inr [?e]"
    unfolding e using v assms(3) by (simp add: convertEntry_same_zone)
  have pre: "preprocessOpeningHours [entry (days ! d) (formatHHmm t) ''24:00''] = Inr [?e]"
    unfolding raw e using preprocess_canonical[OF v] by simp
  have cf: "combineAndCheckIntegrity [?e] = Inr [?e]"
    unfolding e using canonical_fixed[OF c] by simp
  have r: "?set = generateOpeningHoursInstance env (?s\<lparr>openingHours := [?e]\<rparr>)"
    by (simp add: setOpeningHours_def pre z conv cf)
  have s1: "fst ?set = Inr ()" unfolding r by (rule generate_succeeds)
  have s2: "openingHours (snd ?set) = [?e]" unfolding r by (simp add: generate_fields)
  have s3: "userTimezone (snd ?set) = z" unfolding r by (simp add: generate_fields z)
  have s4: "fst (exportOpeningHours env (Some z) (snd ?set)) = Inr [?e]"
    by (simp add: exportOpeningHours_def s2 s3 conv cf)
  have s5: "?e \<in> set (openingHours ?s)
            \<longrightarrow> (\<exists>hs. fst (exportOpeningHours env (Some z) ?s) = Inr hs \<and> ?e \<in> set hs)"
    using export_same_zone(2)[OF afterCalls_inv[of env' z calls]] assms(3) by (simp add: z)
  show ?thesis
    by (intro conjI) (rule conv, rule s1, rule s2, rule s4, rule s5)
qed

theorem closing_at_midnight_survives_export_witness:
  "fst (setOpeningHours demoEnv [entry ''Sunday'' ''10:00'' ''24:00''] (Some ''UTC'')
          (afterCalls demoEnv ''UTC'' [])) = Inr ()
   \<and> fst (exportOpeningHours demoEnv (Some ''UTC'')
            (snd (setOpeningHours demoEnv [entry ''Sunday'' ''10:00'' ''24:00''] (Some ''UTC'')
                   (afterCalls demoEnv ''UTC'' []))))
       = Inr [stored ''Sunday'' ''10:00'' ''24:00'']"
proof -
  have "steadyZone demoEnv ''UTC''"
    unfolding demoEnv_def by (rule steady_fixed) (simp add: demoZones_def)
  then have a: "(6::nat) < 7" "(600::nat) < 1440" "steadyZone demoEnv ''UTC''"
    by simp_all
  have d: "days ! 6 = ''Sunday''" by (simp add: days_def)
  have f: "formatHHmm 600 = ''10:00''" by code_simp
  note t = closing_at_midnight_survives_export[OF a, of demoEnv "[]", unfolded d f]
  have c2: "fst (setOpeningHours demoEnv [entry ''Sunday'' ''10:00'' ''24:00''] (Some ''UTC'')
          (afterCalls demoEnv ''UTC'' [])) = Inr ()"
    by (rule t[THEN conjunct2, THEN conjunct1])
  have c4: "fst (exportOpeningHours demoEnv (Some ''UTC'')
            (snd (setOpeningHours demoEnv [entry ''Sunday'' ''10:00'' ''24:00''] (Some ''UTC'')
                   (afterCalls demoEnv ''UTC'' []))))
       = Inr [stored ''Sunday'' ''10:00'' ''24:00'']"
    by (rule t[THEN conjunct2, THEN conjunct2, THEN conjunct2, THEN conjunct1])
  show ?thesis using c2 c4 by (rule conjI)
qed

section \<open>The view by weekday\<close>

lemma pushRange_present:
  "distinct (map fst table) \<Longrightarrow> key \<in> set (map fst table) \<Longrightarrow>
     pushRange table key r = map (\<lambda>(k, rs). (k, if k = key then rs @ [r] else rs)) table"
proof (induction table)
  case Nil then show ?case by simp
next
  case (Cons a table)
  obtain k rs where a: "a = (k, rs)" by (cases a)
  show ?case
  proof (cases "k = key")
    case True
    then have "\<forall>x\<in>set table. fst x \<noteq> key" using Cons.prems(1) by (auto simp: a)
    then have "map (\<lambda>(k, rs). (k, if k = key then rs @ [r] else rs)) table = table"
      by (induction table) auto
    then show ?thesis using True by (simp add: a)
  next
    case False
    then show ?thesis using Cons by (auto simp: a)
  qed
qed

lemma group_fold:
  assumes "distinct (map fst table)" "\<forall>h\<in>set hs. dayOfWeek h \<in> set (map fst table)"
  shows "foldl (\<lambda>table sp. pushRange table (dayOfWeek sp)
                          \<lparr>rangeOpen = opens sp, rangeCloses = closes sp\<rparr>) table hs
         = map (\<lambda>(k, rs). (k, rs @ map (\<lambda>h. \<lparr>rangeOpen = opens h, rangeCloses = closes h\<rparr>)
                                     (filter (\<lambda>h. dayOfWeek h = k) hs))) table"
  using assms
proof (induction hs arbitrary: table)
  case Nil
  then show ?case by (simp add: case_prod_beta)
next
  case (Cons h hs)
  let ?step = "\<lambda>table sp. pushRange table (dayOfWeek sp)
                          \<lparr>rangeOpen = opens sp, rangeCloses = closes sp\<rparr>"
  let ?r = "\<lambda>h. \<lparr>rangeOpen = opens h, rangeCloses = closes h\<rparr>"
  let ?t = "pushRange table (dayOfWeek h) (?r h)"
  have t: "?t = map (\<lambda>(k, rs). (k, if k = dayOfWeek h then rs @ [?r h] else rs)) table"
    using Cons.prems by (intro pushRange_present) auto
  have k: "map fst ?t = map fst table" unfolding t by (simp add: case_prod_beta comp_def)
  have "foldl ?step table (h # hs) = foldl ?step ?t hs" by simp
  also have "\<dots> = map (\<lambda>(k, rs). (k, rs @ map ?r (filter (\<lambda>h. dayOfWeek h = k) hs))) ?t"
    using Cons.prems by (intro Cons.IH) (simp_all add: k)
  also have "\<dots> = map (\<lambda>(k, rs). (k, rs @ map ?r (filter (\<lambda>h. dayOfWeek h = k) hs)))
                      (map (\<lambda>(k, rs). (k, if k = dayOfWeek h then rs @ [?r h] else rs)) table)"
    by (simp only: t)
  also have "\<dots> = map (\<lambda>(k, rs). (k, rs @ map ?r (filter (\<lambda>h. dayOfWeek h = k) (h # hs)))) table"
    by (auto simp: case_prod_beta)
  finally show ?case .
qed

lemma days_distinct: "distinct days"
  by (simp add: days_def)

lemma groupByDay_days:
  assumes "\<forall>h\<in>set hs. dayOfWeek h \<in> set days"
  shows "groupByDay hs = map (\<lambda>d. (d, map (\<lambda>h. \<lparr>rangeOpen = opens h, rangeCloses = closes h\<rparr>)
                                     (filter (\<lambda>h. dayOfWeek h = d) hs))) days"
  unfolding groupByDay_def
  using assms by (subst group_fold) (simp_all add: comp_def days_distinct)

lemma canonical_day_sorted:
  assumes "canonical ivs"
  shows "sorted_wrt (\<lambda>a b. timeIsBefore (opens a) (opens b))
           (filter (\<lambda>h. dayOfWeek h = day) (map render ivs))"
proof -
  have v: "list_all validInterval ivs" using assms by (rule canonical_valid)
  have k: "sorted_wrt (\<lambda>x y. sortKey x \<le> sortKey y) ivs"
    using canonical_keys[OF assms] by (simp add: sorted_map)
  have c: "successively (\<lambda>x y. fst x = fst y \<longrightarrow> fst (snd x) < fst (snd y)) ivs"
    using assms by (induction ivs rule: canonical.induct) (auto simp: validInterval_def split: prod.splits)
  have strict: "sorted_wrt (\<lambda>x y. fst x = fst y \<longrightarrow> fst (snd x) < fst (snd y)) ivs"
    using assms
  proof (induction ivs rule: canonical.induct)
    case (3 a b rest)
    then have ih: "sorted_wrt (\<lambda>x y. fst x = fst y \<longrightarrow> fst (snd x) < fst (snd y)) (b # rest)"
      by simp
    have ab: "sortKey a < sortKey b"
    proof -
      have va: "fst (snd a) < snd (snd a)" "snd (snd a) \<le> 1440"
        using 3(2) by (auto simp: validInterval_def split: prod.splits)
      have "fst a < fst b \<or> (fst a = fst b \<and> fst (snd a) < fst (snd b))"
        using 3(2) va by auto
      then show ?thesis
      proof
        assume "fst a < fst b"
        then have "(fst a + 1) * 1441 \<le> fst b * 1441" by (intro mult_le_mono1) simp
        then show ?thesis using va by (simp add: sortKey_def)
      next
        assume "fst a = fst b \<and> fst (snd a) < fst (snd b)"
        then show ?thesis by (simp add: sortKey_def)
      qed
    qed
    have "sorted (map sortKey (b # rest))" using canonical_keys 3(2) canonical_tail by blast
    then have "\<forall>y\<in>set (b # rest). sortKey b \<le> sortKey y" by auto
    then have "\<forall>y\<in>set (b # rest). sortKey a < sortKey y" using ab by fastforce
    then have "\<forall>y\<in>set (b # rest). fst a = fst y \<longrightarrow> fst (snd a) < fst (snd y)"
      by (auto simp: sortKey_def)
    then show ?case using ih by simp
  qed simp_all
  have "sorted_wrt (\<lambda>a b. timeIsBefore (opens a) (opens b))
           (map render (filter (\<lambda>iv. days ! fst iv = day) ivs))"
    unfolding sorted_wrt_map
  proof (rule sorted_wrt_mono_rel[rotated])
    show "sorted_wrt (\<lambda>x y. fst x = fst y \<longrightarrow> fst (snd x) < fst (snd y))
            (filter (\<lambda>iv. days ! fst iv = day) ivs)"
      using strict by (rule sorted_wrt_filter)
  next
    fix x y
    assume x: "x \<in> set (filter (\<lambda>iv. days ! fst iv = day) ivs)"
      and y: "y \<in> set (filter (\<lambda>iv. days ! fst iv = day) ivs)"
      and xy: "fst x = fst y \<longrightarrow> fst (snd x) < fst (snd y)"
    have vx: "validInterval x" "validInterval y" using x y v by (auto simp: list_all_iff)
    then have "fst x = fst y"
      using x y by (auto simp: validInterval_def days_inj split: prod.splits)
    then show "timeIsBefore (opens (render x)) (opens (render y))"
      using xy vx by (cases x; cases y) (auto simp: validInterval_def timeIsBefore_format)
  qed
  moreover have "filter (\<lambda>h. dayOfWeek h = day) (map render ivs)
      = map render (filter (\<lambda>iv. days ! fst iv = day) ivs)"
    by (simp add: filter_map comp_def render_def case_prod_beta)
  ultimately show ?thesis by simp
qed

text \<open>
  C10. In every state a service reaches, \<open>getOpenRangePerDay\<close> without a zone returns
  (and does not throw) exactly seven records, one per weekday in the order Monday,
  Tuesday, Wednesday, Thursday, Friday, Saturday, Sunday; the record of a weekday lists
  the stored intervals of that weekday in their stored order, which is strictly
  ascending in the opening time, and is the empty list for a weekday without intervals;
  with the internal zone given explicitly the result is the same.
\<close>

theorem open_ranges_per_day_in_week_order:
  "fst (getOpenRangePerDay env None (afterCalls env z calls))
     = Inr (map (\<lambda>d. \<lparr>perDayType = ''OpenRangePerDay'', perDayOfWeek = d,
                      openRanges = map (\<lambda>h. \<lparr>rangeOpen = opens h, rangeCloses = closes h\<rparr>)
                         (filter (\<lambda>h. dayOfWeek h = d) (openingHours (afterCalls env z calls)))\<rparr>)
                [''Monday'', ''Tuesday'', ''Wednesday'', ''Thursday'', ''Friday'', ''Saturday'',
                 ''Sunday''])
   \<and> getOpenRangePerDay env (Some z) (afterCalls env z calls)
     = getOpenRangePerDay env None (afterCalls env z calls)
   \<and> (\<forall>d. sorted_wrt (\<lambda>a b. timeIsBefore (opens a) (opens b))
             (filter (\<lambda>h. dayOfWeek h = d) (openingHours (afterCalls env z calls))))"
proof -
  let ?s = "afterCalls env z calls"
  obtain ivs where ivs: "openingHours ?s = map render ivs" "canonical ivs"
    using afterCalls_inv[of env z calls] by (auto simp: stateInv_def)
  have "\<forall>h\<in>set (openingHours ?s). dayOfWeek h \<in> set days"
    using canonical_printed[OF ivs(2)]
    by (auto simp: ivs(1) list_all_iff printedInterval_def day_in_days)
  from groupByDay_days[OF this]
  have 1: "fst (getOpenRangePerDay env None ?s)
     = Inr (map (\<lambda>d. \<lparr>perDayType = ''OpenRangePerDay'', perDayOfWeek = d,
                      openRanges = map (\<lambda>h. \<lparr>rangeOpen = opens h, rangeCloses = closes h\<rparr>)
                         (filter (\<lambda>h. dayOfWeek h = d) (openingHours ?s))\<rparr>) days)"
    by (simp add: getOpenRangePerDay_default comp_def)
  have 2: "getOpenRangePerDay env (Some z) ?s = getOpenRangePerDay env None ?s"
    by (simp add: getOpenRangePerDay_def afterCalls_zone)
  have 3: "\<forall>d. sorted_wrt (\<lambda>a b. timeIsBefore (opens a) (opens b))
             (filter (\<lambda>h. dayOfWeek h = d) (openingHours ?s))"
    using canonical_day_sorted[OF ivs(2)] by (simp add: ivs(1))
  show ?thesis using 1 2 3 unfolding days_def by blast
qed

section \<open>Overlapping intervals\<close>

lemma pairIn_index:
  "i < j \<Longrightarrow> j < length xs \<Longrightarrow> Q (xs ! i) (xs ! j) \<Longrightarrow> pairIn Q xs"
proof (induction xs arbitrary: i j)
  case Nil then show ?case by simp
next
  case (Cons x xs)
  show ?case
  proof (cases i)
    case 0
    then obtain j' where j: "j = Suc j'" using Cons.prems(1) by (cases j) auto
    then have "xs ! j' \<in> set xs" "Q x (xs ! j')" using Cons.prems 0 by auto
    then show ?thesis by auto
  next
    case (Suc i')
    then obtain j' where j: "j = Suc j'" using Cons.prems(1) by (cases j) auto
    have "pairIn Q xs" using Cons.IH[of i' j'] Cons.prems Suc j by auto
    then show ?thesis by simp
  qed
qed

lemma pairIn_insort:
  assumes "\<And>a b. Q a b \<Longrightarrow> Q b a"
  shows "pairIn Q (insort_key f x xs) \<longleftrightarrow> (\<exists>y\<in>set xs. Q x y) \<or> pairIn Q xs"
proof (induction xs)
  case Nil then show ?case by simp
next
  case (Cons a xs)
  show ?case
  proof (cases "f x \<le> f a")
    case True then show ?thesis by simp
  next
    case False
    then show ?thesis using Cons assms by (auto simp: set_insort_key)
  qed
qed

lemma pairIn_sort:
  assumes "\<And>a b. Q a b \<Longrightarrow> Q b a"
  shows "pairIn Q (sort_key f xs) \<longleftrightarrow> pairIn Q xs"
proof (induction xs)
  case Nil then show ?case by simp
next
  case (Cons a xs)
  have "sort_key f (a # xs) = insort_key f a (sort_key f xs)" by (simp add: sort_key_def)
  then show ?case using Cons pairIn_insort[of Q f a "sort_key f xs", OF assms] by simp
qed

lemma sharesTwo_sym: "sharesTwo a b \<Longrightarrow> sharesTwo b a"
  by (auto simp: sharesTwo_def min.commute max.commute)

lemma key_order:
  assumes "printedInterval x" "printedInterval y" "sortKey x \<le> sortKey y"
  shows "fst x < fst y \<or> (fst x = fst y \<and> fst (snd x) \<le> fst (snd y))"
proof (rule ccontr)
  assume "\<not> ?thesis"
  then have "fst y < fst x \<or> (fst x = fst y \<and> fst (snd y) < fst (snd x))" by auto
  then show False
  proof
    assume "fst y < fst x"
    then have "(fst y + 1) * 1441 \<le> fst x * 1441" by (intro mult_le_mono1) simp
    moreover have "fst (snd y) \<le> 1440" using assms(2) by (auto simp: printedInterval_def split: prod.splits)
    ultimately show False using assms(3) by (simp add: sortKey_def)
  next
    assume "fst x = fst y \<and> fst (snd y) < fst (snd x)"
    then show False using assms(3) by (simp add: sortKey_def)
  qed
qed

lemma shares_to_clash:
  assumes "list_all printedInterval xs" "sorted (map sortKey xs)" "pairIn sharesTwo xs"
  shows "pairIn clashes xs"
  using assms
proof (induction xs)
  case Nil then show ?case by simp
next
  case (Cons x xs)
  from Cons.prems(3) consider y where "y \<in> set xs" "sharesTwo x y" | "pairIn sharesTwo xs" by auto
  then show ?case
  proof cases
    case 1
    have "sortKey x \<le> sortKey y" using Cons.prems(2) 1(1) by auto
    moreover have "printedInterval x" "printedInterval y"
      using Cons.prems(1) 1(1) by (auto simp: list_all_iff)
    ultimately have "fst (snd x) \<le> fst (snd y)" using key_order 1(2)
      by (fastforce simp: sharesTwo_def)
    then have "clashes x y" using 1(2) by (auto simp: sharesTwo_def clashes_def)
    then show ?thesis using 1(1) by auto
  next
    case 2
    then show ?thesis using Cons by simp
  qed
qed

lemma clash_breaks_integrity:
  assumes "list_all printedInterval (cur # rest)" "sorted (map sortKey (cur # rest))"
    "pairIn clashes (cur # rest)"
  shows "\<not> integrity (mergeFrom cur rest)"
  using assms
proof (induction rest arbitrary: cur)
  case Nil then show ?case by simp
next
  case (Cons n r)
  have pc: "printedInterval cur" and pn: "printedInterval n" and pr: "list_all printedInterval r"
    using Cons.prems(1) by simp_all
  show ?case
  proof (cases "fst cur = fst n \<and> \<bar>int (snd (snd cur)) - int (fst (snd n))\<bar> \<le> 1")
    case True
    let ?c = "(fst cur, fst (snd cur), max (snd (snd cur)) (snd (snd n)))"
    have e: "mergeFrom cur (n # r) = mergeFrom ?c r" using True by (rule mergeFrom_absorb)
    have p: "list_all printedInterval (?c # r)"
      using pc pn pr by (auto simp: printedInterval_def split: prod.splits)
    have k: "sortKey ?c = sortKey cur" by (simp add: sortKey_def)
    have s: "sorted (map sortKey (?c # r))" using Cons.prems(2) by (simp add: k)
    have "\<not> clashes cur n" using True by (auto simp: clashes_def)
    then have disj: "(\<exists>y\<in>set r. clashes cur y) \<or> (\<exists>y\<in>set r. clashes n y) \<or> pairIn clashes r"
      using Cons.prems(3) by auto
    have up1: "\<forall>y. clashes cur y \<longrightarrow> clashes ?c y" by (auto simp: clashes_def)
    have up2: "\<forall>y. clashes n y \<longrightarrow> clashes ?c y" using True by (auto simp: clashes_def)
    have "(\<exists>y\<in>set r. clashes ?c y) \<or> pairIn clashes r" using disj up1 up2 by blast
    then have "pairIn clashes (?c # r)" by simp
    from Cons.IH[OF p s this] show ?thesis unfolding e .
  next
    case False
    have e: "mergeFrom cur (n # r) = cur # mergeFrom n r" using False by (rule mergeFrom_keep)
    obtain c tl where h: "mergeFrom n r = (fst n, fst (snd n), c) # tl"
      using mergeFrom_head by blast
    have alt: "(\<exists>y\<in>set (n # r). clashes cur y) \<or> pairIn clashes (n # r)"
      using Cons.prems(3) by simp
    show ?thesis
    proof (cases "\<exists>y\<in>set (n # r). clashes cur y")
      case True
      then obtain y where 1: "y \<in> set (n # r)" "clashes cur y" by blast
      have py: "printedInterval y" using 1(1) pn pr by (auto simp: list_all_iff)
      have k1: "sortKey cur \<le> sortKey n" using Cons.prems(2) by simp
      have k2: "sortKey n \<le> sortKey y" using Cons.prems(2) 1(1) by auto
      have d: "fst cur = fst y" and c: "snd (snd cur) \<ge> fst (snd y) + 2"
        using 1(2) by (auto simp: clashes_def)
      have "fst cur = fst n \<and> fst (snd n) \<le> fst (snd y)"
        using key_order[OF pc pn k1] key_order[OF pn py k2] d by auto
      then have "fst cur = fst n \<and> snd (snd cur) > fst (snd n)" using c by auto
      then show ?thesis unfolding e h by simp
    next
      case False
      then have 2: "pairIn clashes (n # r)" using alt by blast
      have "list_all printedInterval (n # r)" using pn pr by simp
      moreover have "sorted (map sortKey (n # r))" using Cons.prems(2) by simp
      ultimately have "\<not> integrity (mergeFrom n r)" using Cons.IH 2 by blast
      then show ?thesis unfolding e by simp
    qed
  qed
qed

lemma valid_mergeFrom:
  "validInterval cur \<Longrightarrow> list_all validInterval rest \<Longrightarrow>
     list_all validInterval (mergeFrom cur rest)"
proof (induction rest arbitrary: cur)
  case Nil then show ?case by simp
next
  case (Cons nxt rest)
  have "validInterval (fst cur, fst (snd cur), max (snd (snd cur)) (snd (snd nxt)))"
    using Cons.prems by (cases cur; cases nxt) (auto simp: validInterval_def)
  then show ?case using Cons by auto
qed

lemma valid_normalize: "list_all validInterval ivs \<Longrightarrow> list_all validInterval (normalize ivs)"
proof -
  assume v: "list_all validInterval ivs"
  then have s: "list_all validInterval (sort_key sortKey ivs)" by (simp add: list_all_iff)
  show ?thesis
  proof (cases "sort_key sortKey ivs")
    case Nil then show ?thesis by (simp add: normalize_def mergeAdjacent_def)
  next
    case (Cons a r)
    then show ?thesis using s by (simp add: normalize_def mergeAdjacent_def valid_mergeFrom)
  qed
qed

lemma overlap_error_kind:
  "list_all validInterval ivs \<Longrightarrow> \<not> integrity ivs \<Longrightarrow>
     isOverlapError (checkIntegrity (map render ivs))"
proof (induction ivs)
  case Nil then show ?case by simp
next
  case (Cons cur rest)
  obtain d a b where cur: "cur = (d, a, b)" by (cases cur)
  have p: "d < 7" "a < b" "b \<le> 1440" "a \<le> 1440" "a \<noteq> 1440"
    using Cons.prems by (auto simp: cur validInterval_def)
  show ?case
  proof (cases rest)
    case Nil
    then show ?thesis using p Cons.prems(2) by (auto simp: cur)
  next
    case (Cons nxt rest')
    obtain d' a' b' where nxt: "nxt = (d', a', b')" by (cases nxt)
    have q: "d' < 7" "a' \<le> 1440" using Cons.prems(1) Cons by (auto simp: nxt validInterval_def)
    show ?thesis
    proof (cases "d = d' \<and> b > a'")
      case True
      then show ?thesis using p q Cons
        by (simp add: cur nxt ctm_format format_eq_2400 Let_def isOverlapError_def)
    next
      case False
      then have "\<not> integrity rest" using Cons.prems(2) p Cons by (auto simp: cur nxt)
      then have "isOverlapError (checkIntegrity (map render rest))"
        using Cons.IH Cons.prems(1) by simp
      then show ?thesis using p q False Cons
        by (auto simp: cur nxt ctm_format format_eq_2400 Let_def days_inj)
    qed
  qed
qed

lemma overlap_is_rejected:
  assumes "list_all validInterval ivs" "i < j" "j < length ivs" "sharesTwo (ivs ! i) (ivs ! j)"
  shows "isOverlapError (combineAndCheckIntegrity (map render ivs))"
proof -
  have p: "list_all printedInterval ivs" using assms(1) valid_printed by (auto simp: list_all_iff)
  let ?s = "sort_key sortKey ivs"
  have "pairIn sharesTwo ivs" using assms(2-4) by (rule pairIn_index)
  then have "pairIn sharesTwo ?s" using pairIn_sort[of sharesTwo sortKey ivs] sharesTwo_sym by blast
  moreover have ps: "list_all printedInterval ?s" using p by (rule printed_sort)
  ultimately have c: "pairIn clashes ?s" by (intro shares_to_clash) simp_all
  then obtain a r where ar: "?s = a # r" by (cases ?s) auto
  have "\<not> integrity (mergeFrom a r)"
    using clash_breaks_integrity[of a r] ps c unfolding ar[symmetric] by (simp add: ar[symmetric])
  then have n: "\<not> integrity (normalize ivs)" by (simp add: normalize_def mergeAdjacent_def ar)
  have "isOverlapError (checkIntegrity (map render (normalize ivs)))"
    using overlap_error_kind[OF valid_normalize[OF assms(1)] n] .
  then show ?thesis
    using n by (cases "checkIntegrity (map render (normalize ivs))")
      (auto simp: combineAndCheckIntegrity_render[OF p] isOverlapError_def)
qed

lemma overlapByTwo_render:
  assumes "validInterval x" "validInterval y"
  shows "overlapByTwo (render x) (render y) \<longleftrightarrow> sharesTwo x y"
proof -
  obtain d a b where x: "x = (d, a, b)" by (cases x)
  obtain d' a' b' where y: "y = (d', a', b')" by (cases y)
  have v: "d < 7" "a \<le> 1440" "b \<le> 1440" "d' < 7" "a' \<le> 1440" "b' \<le> 1440"
    using assms by (auto simp: x y validInterval_def)
  show ?thesis using v
    by (auto simp: overlapByTwo_def sharesTwo_def x y ctm_format days_inj min_def max_def)
qed

lemma properRange_render:
  assumes "printedInterval iv" "properRange (render iv)"
  shows "validInterval iv"
proof -
  obtain d a b where iv: "iv = (d, a, b)" by (cases iv)
  have "d < 7" "a \<le> 1440" "b \<le> 1440" using assms(1) by (auto simp: iv printedInterval_def)
  then show ?thesis using assms(2)
    by (auto simp: iv properRange_def validInterval_def ctm_format)
qed

lemma overlapping_records_rejected:
  assumes "list_all validInterval ivs"
    and "\<exists>i j. i < j \<and> j < length (map render ivs)
                \<and> overlapByTwo (map render ivs ! i) (map render ivs ! j)"
  shows "isOverlapError (combineAndCheckIntegrity (map render ivs))"
proof -
  obtain i j where ij: "i < j" "j < length ivs"
      "overlapByTwo (render (ivs ! i)) (render (ivs ! j))"
    using assms(2) by auto
  have "validInterval (ivs ! i)" "validInterval (ivs ! j)"
    using assms(1) ij(1,2) by (auto simp: list_all_length)
  then have "sharesTwo (ivs ! i) (ivs ! j)" using ij(3) overlapByTwo_render by blast
  then show ?thesis using overlap_is_rejected[OF assms(1) ij(1,2)] by simp
qed

lemma isOverlapError_Inl: "isOverlapError (r :: error + 'a) \<Longrightarrow> \<exists>e. r = Inl e \<and> isOverlapError (Inl e :: error + 'b)"
  by (cases r) (auto simp: isOverlapError_def split: error.splits)

text \<open>
  C1 (amended). Let a batch given to \<open>setOpeningHours\<close> or \<open>addOpeningHoursBatch\<close>
  pass the range check and convert into the internal zone, each converted record being a
  proper range. If two of the converted records (for \<open>setOpeningHours\<close>), or two
  records among the stored ones followed by the converted ones (for
  \<open>addOpeningHoursBatch\<close>, so also one stored and one new record), lie on the same
  weekday and have at least two minutes in common, then the call fails with the overlap
  error and the service is left as it was: neither record is dropped, truncated or
  merged. (Records that share a single minute, the first closing one minute after the
  second opens, are within the one-minute tolerance of the merging step.)
\<close>

theorem overlap_of_two_minutes_is_rejected:
  assumes "preprocessOpeningHours hours = Inr ps"
    and "flatMapE (\<lambda>sp. convertAndSplitEntry env sp tz z) ps = Inr conv"
    and "list_all properRange conv"
  shows "((\<exists>i j. i < j \<and> j < length conv \<and> overlapByTwo (conv ! i) (conv ! j))
          \<longrightarrow> isOverlapError (fst (setOpeningHours env hours (Some tz) (afterCalls env z calls)))
              \<and> snd (setOpeningHours env hours (Some tz) (afterCalls env z calls))
                  = afterCalls env z calls)
       \<and> ((\<exists>i j. i < j \<and> j < length (openingHours (afterCalls env z calls) @ conv)
                 \<and> overlapByTwo ((openingHours (afterCalls env z calls) @ conv) ! i)
                                 ((openingHours (afterCalls env z calls) @ conv) ! j))
          \<longrightarrow> isOverlapError
                (fst (addOpeningHoursBatch env hours (Some tz) (afterCalls env z calls)))
              \<and> snd (addOpeningHoursBatch env hours (Some tz) (afterCalls env z calls))
                  = afterCalls env z calls)"
proof -
  let ?s = "afterCalls env z calls"
  have z: "userTimezone ?s = z" by (rule afterCalls_zone)
  obtain ivs where ivs: "conv = map render ivs" "list_all printedInterval ivs"
    using convertAll_success[OF assms(2)] by blast
  have vi: "list_all validInterval ivs"
    using ivs assms(3) properRange_render by (auto simp: list_all_iff)
  obtain old where old: "openingHours ?s = map render old" "canonical old"
    using afterCalls_inv[of env z calls] by (auto simp: stateInv_def)
  have vo: "list_all validInterval old" using old(2) by (rule canonical_valid)
  have all: "openingHours ?s @ conv = map render (old @ ivs)" by (simp add: old(1) ivs(1))
  have vall: "list_all validInterval (old @ ivs)" using vo vi by simp
  show ?thesis
  proof (intro conjI impI)
    assume a: "\<exists>i j. i < j \<and> j < length conv \<and> overlapByTwo (conv ! i) (conv ! j)"
    have "isOverlapError (combineAndCheckIntegrity conv)"
      unfolding ivs(1) using vi a[unfolded ivs(1)] by (rule overlapping_records_rejected)
    then obtain e where e: "combineAndCheckIntegrity conv = Inl e"
        "isOverlapError (Inl e :: error + unit)"
      using isOverlapError_Inl by blast
    have r: "setOpeningHours env hours (Some tz) ?s = (Inl e, ?s)"
      by (simp add: setOpeningHours_def assms(1,2) z e(1))
    show "isOverlapError (fst (setOpeningHours env hours (Some tz) ?s))" by (simp add: r e(2))
    show "snd (setOpeningHours env hours (Some tz) ?s) = ?s" by (simp add: r)
  next
    assume a: "\<exists>i j. i < j \<and> j < length (openingHours ?s @ conv)
                 \<and> overlapByTwo ((openingHours ?s @ conv) ! i) ((openingHours ?s @ conv) ! j)"
    have "isOverlapError (combineAndCheckIntegrity (openingHours ?s @ conv))"
      unfolding all using vall a[unfolded all] by (rule overlapping_records_rejected)
    then obtain e where e: "combineAndCheckIntegrity (openingHours ?s @ conv) = Inl e"
        "isOverlapError (Inl e :: error + unit)"
      using isOverlapError_Inl by blast
    have r: "addOpeningHoursBatch env hours (Some tz) ?s = (Inl e, ?s)"
      by (simp add: addOpeningHoursBatch_def assms(1,2) z e(1))
    show "isOverlapError (fst (addOpeningHoursBatch env hours (Some tz) ?s))" by (simp add: r e(2))
    show "snd (addOpeningHoursBatch env hours (Some tz) ?s) = ?s" by (simp add: r)
  qed
qed

theorem overlap_of_two_minutes_is_rejected_witness:
  "fst (setOpeningHours demoEnv twoOverlapping (Some ''UTC'')
          (afterCalls demoEnv ''UTC'' [AddOpeningHour ''Monday'' ''09:00'' ''09:30'' None]))
     = Inl (OverlapError ''Monday'' ''10:00'' ''11:30'' ''11:00'' ''18:00'')
   \<and> isOverlapError (fst (setOpeningHours demoEnv twoOverlapping (Some ''UTC'')
          (afterCalls demoEnv ''UTC'' [AddOpeningHour ''Monday'' ''09:00'' ''09:30'' None])))
   \<and> isOverlapError (fst (addOpeningHoursBatch demoEnv twoOverlapping (Some ''UTC'')
          (afterCalls demoEnv ''UTC'' [AddOpeningHour ''Monday'' ''09:00'' ''09:30'' None])))
   \<and> snd (addOpeningHoursBatch demoEnv twoOverlapping (Some ''UTC'')
          (afterCalls demoEnv ''UTC'' [AddOpeningHour ''Monday'' ''09:00'' ''09:30'' None]))
     = afterCalls demoEnv ''UTC'' [AddOpeningHour ''Monday'' ''09:00'' ''09:30'' None]"
proof -
  let ?s = "afterCalls demoEnv ''UTC'' [AddOpeningHour ''Monday'' ''09:00'' ''09:30'' None]"
  let ?conv = "[stored ''Monday'' ''10:00'' ''11:30'', stored ''Monday'' ''11:00'' ''18:00'']"
  have p: "preprocessOpeningHours twoOverlapping = Inr ?conv" by code_simp
  have c: "flatMapE (\<lambda>sp. convertAndSplitEntry demoEnv sp ''UTC'' ''UTC'') ?conv = Inr ?conv"
    by code_simp
  have pr: "list_all properRange ?conv" by code_simp
  have st: "openingHours ?s = [stored ''Monday'' ''09:00'' ''09:30'']" by code_simp
  have o: "overlapByTwo (stored ''Monday'' ''10:00'' ''11:30'') (stored ''Monday'' ''11:00'' ''18:00'')"
    by code_simp
  have h1: "\<exists>i j. i < j \<and> j < length ?conv \<and> overlapByTwo (?conv ! i) (?conv ! j)"
    using o by (intro exI[of _ 0] exI[of _ 1]) simp
  have h2: "\<exists>i j. i < j \<and> j < length (openingHours ?s @ ?conv)
                 \<and> overlapByTwo ((openingHours ?s @ ?conv) ! i) ((openingHours ?s @ ?conv) ! j)"
    unfolding st using o by (intro exI[of _ 1] exI[of _ 2]) simp
  note t = overlap_of_two_minutes_is_rejected[OF p c pr, of "[AddOpeningHour ''Monday'' ''09:00'' ''09:30'' None]"]
  have a: "isOverlapError (fst (setOpeningHours demoEnv twoOverlapping (Some ''UTC'') ?s))"
    using t h1 by blast
  have b: "isOverlapError (fst (addOpeningHoursBatch demoEnv twoOverlapping (Some ''UTC'') ?s))
           \<and> snd (addOpeningHoursBatch demoEnv twoOverlapping (Some ''UTC'') ?s) = ?s"
    using t h2 by blast
  have v: "fst (setOpeningHours demoEnv twoOverlapping (Some ''UTC'') ?s)
     = Inl (OverlapError ''Monday'' ''10:00'' ''11:30'' ''11:00'' ''18:00'')"
    by code_simp
  show ?thesis using a b v by simp
qed

text \<open>
  The statement C1 as first written fails: Monday 09:00-12:01 and Monday 12:00-18:00
  intersect in the minute from 12:00 to 12:01, and \<open>setOpeningHours\<close> accepts them and
  stores the single interval Monday 09:00-18:00.
\<close>

theorem one_minute_overlap_counterexample:
  "overlapByTwo (stored ''Monday'' ''09:00'' ''12:01'') (stored ''Monday'' ''12:00'' ''18:00'') = False
   \<and> convertTimeToMinutes ''12:00'' = Fin 720 \<and> convertTimeToMinutes ''12:01'' = Fin 721
   \<and> setOpeningHours demoEnv
        [entry ''Monday'' ''09:00'' ''12:01'', entry ''Monday'' ''12:00'' ''18:00''] (Some ''UTC'')
        (emptyService ''UTC'')
      = (Inr (), \<lparr>openingHours = [stored ''Monday'' ''09:00'' ''18:00''], userTimezone = ''UTC'',
           openingHoursInstance =
             Engine ''Mo 09:00-18:00; Tu off; We off; Th off; Fr off; Sa off; Su off''\<rparr>)"
  by code_simp

end
